theory Spec2Isabelle
  imports Complex_Main "HOL-Library.List_Lexorder" "HOL-Library.Char_ord" "HOL-Library.Log_Nat"
begin

section \<open>Data model\<close>

text \<open>
  The persistent state of the service is a MongoDB database accessed through mongoose
  models. An ObjectId is modelled by the string the services receive and pass around
  (every id is taken to be a well-formed ObjectId string, so no cast error arises), a
  Date by the number of milliseconds since the epoch, and a JavaScript number holding a
  counter by an integer: a stored counter is a double with an integer value, and the
  counters and their sums stay below \<open>2 ^ 53\<close>, where doubles hold the integers exactly.
  The quotients and percentages that the dashboards compute from counters are computed
  in IEEE 754 double arithmetic, which the section on the dashboards models.
\<close>

datatype UserRole = SuperAdmin | AdminRole | FounderRole

record User =
  name :: string
  email :: string
  role :: UserRole

record Founder =
  founder_id :: string
  founder_userId :: string
  companyName :: string

record Admin =
  admin_id :: string
  admin_userId :: string

record Assignment =
  founderId :: string
  adminId :: string
  assignedBy :: string
  assignedAt :: nat

record FounderMetrics =
  fm_founderId :: string
  uploadedBy :: string
  month :: string
  totalPosts :: int
  totalImpressions :: int
  totalCommentOutreach :: int
  fm_notes :: "string option"
  createdAt :: nat
  updatedAt :: nat

text \<open>
  The collections. Users are keyed by their \<open>_id\<close>; the other collections keep their
  documents in insertion order, and \<open>findOne\<close> returns the first match.
\<close>

record db =
  users :: "string \<rightharpoonup> User"
  founders :: "Founder list"
  admins :: "Admin list"
  assignments :: "Assignment list"
  metrics :: "FounderMetrics list"

text \<open>
  \<open>AppError message statusCode\<close> is the application's error class; a failure raised by
  the driver or by schema validation is not an \<open>AppError\<close>, and the error handler
  answers it with \<open>err.statusCode || 500\<close>.
\<close>

datatype error =
  AppError string nat
  | MongoServerError string
  | ValidationError string

fun statusCode :: "error \<Rightarrow> nat" where
  "statusCode (AppError msg code) = code"
| "statusCode (MongoServerError msg) = 500"
| "statusCode (ValidationError msg) = 500"

section \<open>Assignment service\<close>

definition Founder_findOne :: "db \<Rightarrow> string \<Rightarrow> Founder option" where
  "Founder_findOne d uid = find (\<lambda>f. founder_userId f = uid) (founders d)"

definition Admin_findOne :: "db \<Rightarrow> string \<Rightarrow> Admin option" where
  "Admin_findOne d uid = find (\<lambda>a. admin_userId a = uid) (admins d)"

definition User_findById :: "db \<Rightarrow> string \<Rightarrow> User option" where
  "User_findById d uid = users d uid"

definition Assignment_findOne :: "db \<Rightarrow> string \<Rightarrow> string \<Rightarrow> Assignment option" where
  "Assignment_findOne d fid aid =
     find (\<lambda>e. founderId e = fid \<and> adminId e = aid) (assignments d)"

text \<open>The validation loop over \<open>adminIds\<close>: the first violation is thrown.\<close>

fun validateAdmins :: "db \<Rightarrow> string list \<Rightarrow> error option" where
  "validateAdmins d [] = None"
| "validateAdmins d (a # rest) =
     (case Admin_findOne d a of
        None \<Rightarrow> Some (AppError (''Admin with ID '' @ a @ '' not found'') 404)
      | Some admin \<Rightarrow>
          (case User_findById d a of
             None \<Rightarrow> Some (AppError (''User with ID '' @ a @ '' is not an admin'') 400)
           | Some adminUser \<Rightarrow>
               if role adminUser \<noteq> AdminRole
               then Some (AppError (''User with ID '' @ a @ '' is not an admin'') 400)
               else validateAdmins d rest))"

text \<open>
  \<open>Assignment.insertMany\<close> under the unique index on \<open>(founderId, adminId)\<close>: the
  first document that repeats a stored pair makes the insert fail.
\<close>

fun Assignment_insertMany :: "Assignment list \<Rightarrow> Assignment list \<Rightarrow> error + Assignment list" where
  "Assignment_insertMany [] coll = Inr coll"
| "Assignment_insertMany (doc # docs) coll =
     (if find (\<lambda>e. founderId e = founderId doc \<and> adminId e = adminId doc) coll \<noteq> None
      then Inl (MongoServerError ''E11000 duplicate key error'')
      else Assignment_insertMany docs (coll @ [doc]))"

text \<open>The documents built by \<open>adminIds.map\<close>; one clock reading serves the whole call.\<close>

definition newAssignments :: "string \<Rightarrow> string list \<Rightarrow> string \<Rightarrow> nat \<Rightarrow> Assignment list" where
  "newAssignments fid adminIds assigner now =
     map (\<lambda>a. \<lparr>founderId = fid, adminId = a, assignedBy = assigner, assignedAt = now\<rparr>) adminIds"

text \<open>
  \<open>assignAdminsToFounder founderId adminIds assignedBy now d\<close>: the result of the call
  and the database after it. A failed transaction is aborted, which leaves the database
  as it was.
\<close>

definition assignAdminsToFounder ::
  "string \<Rightarrow> string list \<Rightarrow> string \<Rightarrow> nat \<Rightarrow> db \<Rightarrow> (error + unit) \<times> db" where
  "assignAdminsToFounder fId adminIds assigner now d =
     (case Founder_findOne d fId of
        None \<Rightarrow> (Inl (AppError ''Founder not found'' 404), d)
      | Some founder \<Rightarrow>
          (case User_findById d fId of
             None \<Rightarrow> (Inl (AppError ''Invalid founder ID'' 400), d)
           | Some founderUser \<Rightarrow>
               if role founderUser \<noteq> FounderRole
               then (Inl (AppError ''Invalid founder ID'' 400), d)
               else
                 (case validateAdmins d adminIds of
                    Some e \<Rightarrow> (Inl e, d)
                  | None \<Rightarrow>
                      (let cleared = filter (\<lambda>e. founderId e \<noteq> founder_id founder) (assignments d);
                           docs = newAssignments (founder_id founder) adminIds assigner now
                       in case (if docs \<noteq> [] then Assignment_insertMany docs cleared
                                else Inr cleared) of
                            Inl e \<Rightarrow> (Inl e, d)
                          | Inr es \<Rightarrow> (Inr (), d\<lparr>assignments := es\<rparr>)))))"

record AdminDetails =
  ad_adminId :: string
  ad_name :: string
  ad_email :: string

text \<open>
  \<open>getAssignedAdmins\<close>: the aggregation matches the founder's edges and joins each with
  the admin documents whose \<open>userId\<close> is the edge's \<open>adminId\<close> and with the user of
  that id; \<open>$unwind\<close> drops an edge that has no partner and repeats one that has several.
  \<open>adminRows\<close> is what the two \<open>$lookup\<close>/\<open>$unwind\<close> stages and the projection make
  of one matched edge.
\<close>

definition adminRows :: "db \<Rightarrow> Assignment \<Rightarrow> AdminDetails list" where
  "adminRows d e =
     concat (map (\<lambda>admin.
        (case User_findById d (adminId e) of
           None \<Rightarrow> []
         | Some user \<Rightarrow>
             [\<lparr>ad_adminId = adminId e, ad_name = name user, ad_email = email user\<rparr>]))
      (filter (\<lambda>a. admin_userId a = adminId e) (admins d)))"

definition getAssignedAdmins :: "db \<Rightarrow> string \<Rightarrow> error + AdminDetails list" where
  "getAssignedAdmins d fId =
     (case Founder_findOne d fId of
        None \<Rightarrow> Inl (AppError ''Founder not found'' 404)
      | Some founder \<Rightarrow>
          Inr (concat (map (adminRows d)
                 (filter (\<lambda>e. founderId e = founder_id founder) (assignments d)))))"

text \<open>
  \<open>isAdminAssignedToFounder\<close> runs its two lookups inside \<open>try\<close>; the \<open>catch\<close> returns
  \<open>false\<close>. The lookups are taken as a store interface whose queries either throw
  (\<open>Inl\<close>) or answer with what they found, so that a failing store is an input of the
  model. The result of the asynchronous function is \<open>Inl\<close> when its promise rejects.
\<close>

record store =
  findFounder :: "string \<Rightarrow> error + Founder option"
  findAssignment :: "string \<Rightarrow> string \<Rightarrow> error + Assignment option"

text \<open>The body of the \<open>try\<close> block.\<close>

definition isAdminAssignedToFounder_try :: "store \<Rightarrow> string \<Rightarrow> string \<Rightarrow> error + bool" where
  "isAdminAssignedToFounder_try s aId fId =
     (case findFounder s fId of
        Inl err \<Rightarrow> Inl err
      | Inr None \<Rightarrow> Inr False
      | Inr (Some founder) \<Rightarrow>
          (case findAssignment s (founder_id founder) aId of
             Inl err \<Rightarrow> Inl err
           | Inr assignment \<Rightarrow> Inr (assignment \<noteq> None)))"

definition isAdminAssignedToFounder_on :: "store \<Rightarrow> string \<Rightarrow> string \<Rightarrow> error + bool" where
  "isAdminAssignedToFounder_on s aId fId =
     (case isAdminAssignedToFounder_try s aId fId of
        Inl err \<Rightarrow> Inr False
      | Inr b \<Rightarrow> Inr b)"

text \<open>The store of a database whose queries all answer.\<close>

definition store_of :: "db \<Rightarrow> store" where
  "store_of d = \<lparr>findFounder = (\<lambda>uid. Inr (Founder_findOne d uid)),
                 findAssignment = (\<lambda>fid aid. Inr (Assignment_findOne d fid aid))\<rparr>"

definition isAdminAssignedToFounder :: "db \<Rightarrow> string \<Rightarrow> string \<Rightarrow> error + bool" where
  "isAdminAssignedToFounder d aId fId = isAdminAssignedToFounder_on (store_of d) aId fId"

text \<open>An id names a valid admin when it has an admin profile and a user of role admin.\<close>

definition valid_admin :: "db \<Rightarrow> string \<Rightarrow> bool" where
  "valid_admin d a =
     (Admin_findOne d a \<noteq> None \<and>
      (case User_findById d a of None \<Rightarrow> False | Some u \<Rightarrow> role u = AdminRole))"

text \<open>What an edge relates, without the time it was stored at.\<close>

definition edge_key :: "Assignment \<Rightarrow> string \<times> string \<times> string" where
  "edge_key e = (founderId e, adminId e, assignedBy e)"

text \<open>
  \<open>getAssignedFounders\<close> without post counts: the edges of the admin, each joined with
  the founder document it points to and with that founder's user; \<open>founderId\<close> in a row
  is the founder's user id.
\<close>

record AssignedFounder =
  af_adminId :: string
  af_founderId :: string
  af_assignedAt :: nat
  af_name :: string
  af_email :: string
  af_companyName :: string

definition founderRows :: "db \<Rightarrow> Assignment \<Rightarrow> AssignedFounder list" where
  "founderRows d e =
     concat (map (\<lambda>founder.
        (case User_findById d (founder_userId founder) of
           None \<Rightarrow> []
         | Some user \<Rightarrow>
             [\<lparr>af_adminId = adminId e, af_founderId = founder_userId founder,
               af_assignedAt = assignedAt e, af_name = name user, af_email = email user,
               af_companyName = companyName founder\<rparr>]))
      (filter (\<lambda>f. founder_id f = founderId e) (founders d)))"

definition getAssignedFounders :: "db \<Rightarrow> string \<Rightarrow> error + AssignedFounder list" where
  "getAssignedFounders d aId =
     (case Admin_findOne d aId of
        None \<Rightarrow> Inl (AppError ''Admin not found'' 404)
      | Some admin \<Rightarrow>
          (case User_findById d aId of
             None \<Rightarrow> Inl (AppError ''Invalid admin ID'' 400)
           | Some adminUser \<Rightarrow>
               if role adminUser \<noteq> AdminRole
               then Inl (AppError ''Invalid admin ID'' 400)
               else Inr (concat (map (founderRows d)
                          (filter (\<lambda>e. adminId e = aId) (assignments d))))))"

definition getFounderByUserId :: "db \<Rightarrow> string \<Rightarrow> Founder option" where
  "getFounderByUserId d uid = Founder_findOne d uid"

text \<open>
  The permission \<open>canAccessFounderContent\<close> of the \<open>checkPermission\<close> middleware, for the
  \<open>founderId\<close> of the route. The admin branch compares that id with the \<open>founderId\<close> of
  the stored edges.
\<close>

definition canAccessFounderContent :: "db \<Rightarrow> string \<Rightarrow> string \<Rightarrow> UserRole \<Rightarrow> bool" where
  "canAccessFounderContent d paramFounderId userId userRole =
     (if userRole = SuperAdmin then True
      else if userRole = FounderRole then paramFounderId = userId
      else if userRole = AdminRole then Assignment_findOne d paramFounderId userId \<noteq> None
      else False)"

section \<open>Metrics service and controller\<close>

text \<open>The character class \<open>\d\<close> of a JavaScript regular expression.\<close>

definition isDigit :: "char \<Rightarrow> bool" where
  "isDigit c = (c \<in> set ''0123456789'')"

text \<open>
  \<open>/^\d{4}-\d{2}$/\<close>, the pattern of the metrics controller and of the FounderMetrics
  schema.
\<close>

definition monthFormat :: "string \<Rightarrow> bool" where
  "monthFormat s =
     (length s = 7 \<and> list_all isDigit (take 4 s) \<and> s ! 4 = CHR ''-'' \<and>
      list_all isDigit (drop 5 s))"

text \<open>
  \<open>/^\d{4}-(0[1-9]|1[0-2])$/\<close>, the pattern that the report service and the Report
  schema use for the same kind of key.
\<close>

definition reportMonthFormat :: "string \<Rightarrow> bool" where
  "reportMonthFormat s =
     (length s = 7 \<and> list_all isDigit (take 4 s) \<and> s ! 4 = CHR ''-'' \<and>
      ((s ! 5 = CHR ''0'' \<and> s ! 6 \<in> set ''123456789'') \<or>
       (s ! 5 = CHR ''1'' \<and> s ! 6 \<in> set ''012'')))"

record MetricsData =
  d_totalPosts :: int
  d_totalImpressions :: int
  d_totalCommentOutreach :: int
  d_notes :: "string option"

definition FounderMetrics_findOne :: "db \<Rightarrow> string \<Rightarrow> string \<Rightarrow> FounderMetrics option" where
  "FounderMetrics_findOne d fid m =
     find (\<lambda>r. fm_founderId r = fid \<and> month r = m) (metrics d)"

text \<open>Saving a document that \<open>findOne\<close> returned writes it back in its place.\<close>

fun save_first :: "('a \<Rightarrow> bool) \<Rightarrow> 'a \<Rightarrow> 'a list \<Rightarrow> 'a list" where
  "save_first P doc [] = []"
| "save_first P doc (x # xs) = (if P x then doc # xs else x # save_first P doc xs)"

text \<open>The \<open>min: 0\<close> validators of the three counters.\<close>

definition validCounters :: "MetricsData \<Rightarrow> bool" where
  "validCounters dat =
     (0 \<le> d_totalPosts dat \<and> 0 \<le> d_totalImpressions dat \<and> 0 \<le> d_totalCommentOutreach dat)"

text \<open>
  \<open>MetricsService.uploadMetrics founderId uploaderId month data\<close> at time \<open>now\<close>.
  \<open>save\<close> validates the paths it changes, \<open>create\<close> validates the whole document; notes
  are stored as given.
\<close>

definition uploadMetrics ::
  "string \<Rightarrow> string \<Rightarrow> string \<Rightarrow> MetricsData \<Rightarrow> nat \<Rightarrow> db \<Rightarrow> (error + FounderMetrics) \<times> db" where
  "uploadMetrics fId uploaderId m dat now d =
     (case FounderMetrics_findOne d fId m of
        Some existingMetrics \<Rightarrow>
          if \<not> validCounters dat
          then (Inl (ValidationError ''FounderMetrics validation failed''), d)
          else
            (let saved = existingMetrics\<lparr>totalPosts := d_totalPosts dat,
                           totalImpressions := d_totalImpressions dat,
                           totalCommentOutreach := d_totalCommentOutreach dat,
                           fm_notes := d_notes dat,
                           uploadedBy := uploaderId,
                           updatedAt := now\<rparr>
             in (Inr saved,
                 d\<lparr>metrics := save_first (\<lambda>r. fm_founderId r = fId \<and> month r = m) saved (metrics d)\<rparr>))
      | None \<Rightarrow>
          if \<not> monthFormat m \<or> \<not> validCounters dat
          then (Inl (ValidationError ''FounderMetrics validation failed''), d)
          else
            (let created = \<lparr>fm_founderId = fId, uploadedBy = uploaderId, month = m,
                             totalPosts = d_totalPosts dat,
                             totalImpressions = d_totalImpressions dat,
                             totalCommentOutreach = d_totalCommentOutreach dat,
                             fm_notes = d_notes dat, createdAt = now, updatedAt = now\<rparr>
             in (Inr created, d\<lparr>metrics := metrics d @ [created]\<rparr>)))"

text \<open>\<open>MetricsService.getFounderMetrics\<close>: the founder's records, latest month first.\<close>

definition getFounderMetrics :: "db \<Rightarrow> string \<Rightarrow> FounderMetrics list" where
  "getFounderMetrics d fId =
     rev (sort_key month (filter (\<lambda>r. fm_founderId r = fId) (metrics d)))"

text \<open>The \<open>authorize\<close> middleware of the routes.\<close>

definition authorize :: "UserRole list \<Rightarrow> UserRole \<Rightarrow> error option" where
  "authorize roles userRole =
     (if userRole \<notin> set roles
      then Some (AppError ''Role is not authorized to access this route'' 403)
      else None)"

text \<open>
  The request body of an upload: a field that the client left out is \<open>None\<close>.
\<close>

record UploadBody =
  b_month :: "string option"
  b_totalPosts :: "int option"
  b_totalImpressions :: "int option"
  b_totalCommentOutreach :: "int option"
  b_notes :: "string option"

text \<open>
  \<open>metricsController.uploadMetrics\<close> for the authenticated user \<open>userId\<close> of role
  \<open>userRole\<close> and the founder id of the route.
\<close>

definition metricsController_uploadMetrics ::
  "string \<Rightarrow> UserRole \<Rightarrow> string \<Rightarrow> UploadBody \<Rightarrow> nat \<Rightarrow> db \<Rightarrow> (error + FounderMetrics) \<times> db" where
  "metricsController_uploadMetrics userId userRole fId body now d =
     (case (b_month body, b_totalPosts body, b_totalImpressions body, b_totalCommentOutreach body) of
        (Some m, Some posts, Some impressions, Some outreach) \<Rightarrow>
          if m = []
          then (Inl (AppError ''Please provide month, totalPosts, totalImpressions, and totalCommentOutreach'' 400), d)
          else if \<not> monthFormat m
          then (Inl (AppError ''Month must be in format YYYY-MM'' 400), d)
          else
            (case (if userRole = AdminRole
                   then (case getAssignedFounders d userId of
                           Inl e \<Rightarrow> Some e
                         | Inr rows \<Rightarrow>
                             if fId \<notin> set (map af_founderId rows)
                             then Some (AppError ''You can only upload metrics for founders assigned to you'' 403)
                             else None)
                   else None) of
               Some e \<Rightarrow> (Inl e, d)
             | None \<Rightarrow>
                 uploadMetrics fId userId m
                   \<lparr>d_totalPosts = posts, d_totalImpressions = impressions,
                    d_totalCommentOutreach = outreach, d_notes = b_notes body\<rparr> now d)
      | _ \<Rightarrow>
          (Inl (AppError ''Please provide month, totalPosts, totalImpressions, and totalCommentOutreach'' 400), d))"

text \<open>The route \<open>POST /founders/:founderId\<close>: \<open>authorize('admin', 'super-admin')\<close>, then the handler.\<close>

definition POST_founder_metrics ::
  "string \<Rightarrow> UserRole \<Rightarrow> string \<Rightarrow> UploadBody \<Rightarrow> nat \<Rightarrow> db \<Rightarrow> (error + FounderMetrics) \<times> db" where
  "POST_founder_metrics userId userRole fId body now d =
     (case authorize [AdminRole, SuperAdmin] userRole of
        Some e \<Rightarrow> (Inl e, d)
      | None \<Rightarrow> metricsController_uploadMetrics userId userRole fId body now d)"

text \<open>\<open>metricsController.getFounderMetrics\<close>, the handler of \<open>GET /founders/:founderId\<close>.\<close>

definition metricsController_getFounderMetrics ::
  "db \<Rightarrow> string \<Rightarrow> UserRole \<Rightarrow> string \<Rightarrow> error + FounderMetrics list" where
  "metricsController_getFounderMetrics d userId userRole fId =
     (case (if userRole = FounderRole
            then (case getFounderByUserId d userId of
                    None \<Rightarrow> Some (AppError ''You can only view your own metrics'' 403)
                  | Some founder \<Rightarrow>
                      if founder_userId founder \<noteq> fId
                      then Some (AppError ''You can only view your own metrics'' 403)
                      else None)
            else if userRole = AdminRole
            then (case getAssignedFounders d userId of
                    Inl e \<Rightarrow> Some e
                  | Inr rows \<Rightarrow>
                      if fId \<notin> set (map af_founderId rows)
                      then Some (AppError ''You can only view metrics for founders assigned to you'' 403)
                      else None)
            else None) of
        Some e \<Rightarrow> Inl e
      | None \<Rightarrow> Inr (getFounderMetrics d fId))"

section \<open>Dashboard aggregation\<close>

subsection \<open>JavaScript numbers\<close>

text \<open>
  A JavaScript number is an IEEE 754 double: a finite double is modelled by the rational
  it denotes (the two zeros are one value), beside the two infinities and \<open>NaN\<close>.
\<close>

datatype number = Finite rat | PosInfinity | NegInfinity | NaN

text \<open>The exponent \<open>e\<close> of a positive rational: \<open>2 ^ e \<le> x < 2 ^ (e + 1)\<close>.\<close>

definition exponent :: "rat \<Rightarrow> int" where
  "exponent x = (if 1 \<le> x then bitlen \<lfloor>x\<rfloor> - 1 else - bitlen (\<lceil>1 / x\<rceil> - 1))"

text \<open>The nearest integer, a tie going to the even one.\<close>

definition round_even :: "rat \<Rightarrow> int" where
  "round_even t =
     (let f = \<lfloor>t\<rfloor>; r = t - of_int f
      in if r < 1 / 2 then f else if 1 / 2 < r then f + 1 else if even f then f else f + 1)"

text \<open>
  The double that an exact result is rounded to (round to nearest, ties to even): 53
  significant bits, the spacing of the subnormal numbers below \<open>2 ^ - 1022\<close>, and an
  infinity from \<open>2 ^ 1024\<close> on.
\<close>

definition to_double :: "rat \<Rightarrow> number" where
  "to_double x =
     (if x = 0 then Finite 0
      else
        (let ulp = 2 powi (max (exponent \<bar>x\<bar>) (- 1022) - 52);
             y = of_int (round_even (x / ulp)) * ulp
         in if 2 powi 1024 \<le> y then PosInfinity
            else if y \<le> - (2 powi 1024) then NegInfinity
            else Finite y))"

text \<open>
  The operators that the dashboards apply: \<open>a - b\<close> on two finite numbers, \<open>x / b\<close> and
  \<open>x * k\<close> with a finite right operand, \<open>Math.round\<close> (a half goes up), \<open>Math.max\<close>, and
  the comparisons \<open>x > k\<close> and \<open>x < y\<close>, which are false on \<open>NaN\<close>.
\<close>

definition js_minus :: "rat \<Rightarrow> rat \<Rightarrow> number" where
  "js_minus a b = to_double (a - b)"

fun js_divide :: "number \<Rightarrow> rat \<Rightarrow> number" where
  "js_divide (Finite a) b =
     (if b = 0 then (if a = 0 then NaN else if 0 < a then PosInfinity else NegInfinity)
      else to_double (a / b))"
| "js_divide PosInfinity b = (if b < 0 then NegInfinity else PosInfinity)"
| "js_divide NegInfinity b = (if b < 0 then PosInfinity else NegInfinity)"
| "js_divide NaN b = NaN"

fun js_times :: "number \<Rightarrow> rat \<Rightarrow> number" where
  "js_times (Finite a) k = to_double (a * k)"
| "js_times PosInfinity k = (if k = 0 then NaN else if 0 < k then PosInfinity else NegInfinity)"
| "js_times NegInfinity k = (if k = 0 then NaN else if 0 < k then NegInfinity else PosInfinity)"
| "js_times NaN k = NaN"

fun Math_round :: "number \<Rightarrow> number" where
  "Math_round (Finite x) = Finite (of_int \<lfloor>x + 1 / 2\<rfloor>)"
| "Math_round PosInfinity = PosInfinity"
| "Math_round NegInfinity = NegInfinity"
| "Math_round NaN = NaN"

fun js_greater :: "number \<Rightarrow> rat \<Rightarrow> bool" where
  "js_greater (Finite x) k = (k < x)"
| "js_greater PosInfinity k = True"
| "js_greater NegInfinity k = False"
| "js_greater NaN k = False"

fun js_less :: "number \<Rightarrow> number \<Rightarrow> bool" where
  "js_less NaN y = False"
| "js_less x NaN = False"
| "js_less (Finite x) (Finite y) = (x < y)"
| "js_less (Finite x) PosInfinity = True"
| "js_less (Finite x) NegInfinity = False"
| "js_less PosInfinity y = False"
| "js_less NegInfinity NegInfinity = False"
| "js_less NegInfinity y = True"

fun Math_max :: "number \<Rightarrow> number \<Rightarrow> number" where
  "Math_max NaN y = NaN"
| "Math_max x NaN = NaN"
| "Math_max x y = (if js_less x y then y else x)"

text \<open>The expression \<open>Math.round((a / b) * 100)\<close> on two finite numbers.\<close>

definition percentage :: "rat \<Rightarrow> rat \<Rightarrow> number" where
  "percentage a b = Math_round (js_times (js_divide (Finite a) b) 100)"

subsection \<open>Growth and performance highlights\<close>

text \<open>
  The growth of a counter from the previous month's record to the current month's, as
  \<open>getAdminRecentActivities\<close> computes it for impressions and for comment outreach:
  \<open>previous > 0 ? Math.round(((current - previous) / previous) * 100) : 0\<close>.
\<close>

definition growth :: "int \<Rightarrow> int \<Rightarrow> number" where
  "growth current previous =
     (if previous > 0
      then Math_round
             (js_times (js_divide (js_minus (of_int current) (of_int previous)) (of_int previous)) 100)
      else Finite 0)"

record PerformanceHighlight =
  ph_founderName :: string
  ph_companyName :: string
  impressionsGrowth :: number
  engagementGrowth :: number
  ph_month :: string

text \<open>\<open>Founder.findById(id).populate('userId', 'name')\<close> and the names read from it.\<close>

definition founderNames :: "db \<Rightarrow> string \<Rightarrow> string \<times> string" where
  "founderNames d fid =
     (case find (\<lambda>f. founder_id f = fid) (founders d) of
        None \<Rightarrow> (''Unknown'', ''Unknown'')
      | Some founder \<Rightarrow>
          (case User_findById d (founder_userId founder) of
             None \<Rightarrow> (''Unknown'', ''Unknown'')
           | Some user \<Rightarrow>
               (name user,
                if companyName founder = [] then ''Unknown'' else companyName founder)))"

text \<open>
  One round of the loop over the assigned founders: what it pushes for the founder
  \<open>fid\<close>.
\<close>

definition performanceHighlight :: "db \<Rightarrow> string \<Rightarrow> string \<Rightarrow> string \<Rightarrow> PerformanceHighlight list" where
  "performanceHighlight d currentMonth prevMonth fid =
     (case FounderMetrics_findOne d fid currentMonth of
        None \<Rightarrow> []
      | Some currentMonthMetric \<Rightarrow>
          (case FounderMetrics_findOne d fid prevMonth of
             None \<Rightarrow> []
           | Some prevMonthMetric \<Rightarrow>
               (let ig = growth (totalImpressions currentMonthMetric)
                           (totalImpressions prevMonthMetric);
                    eg = growth (totalCommentOutreach currentMonthMetric)
                           (totalCommentOutreach prevMonthMetric)
                in if js_greater ig 20 \<or> js_greater eg 20
                   then [\<lparr>ph_founderName = fst (founderNames d fid),
                          ph_companyName = snd (founderNames d fid),
                          impressionsGrowth = ig, engagementGrowth = eg,
                          ph_month = month currentMonthMetric\<rparr>]
                   else [])))"

text \<open>
  \<open>Array.prototype.sort\<close> with the comparator \<open>(a, b) => key(b) - key(a)\<close>: a stable sort
  that puts \<open>a\<close> after \<open>b\<close> only when the key of \<open>b\<close> is the greater one.
\<close>

fun insert_desc :: "('a \<Rightarrow> number) \<Rightarrow> 'a \<Rightarrow> 'a list \<Rightarrow> 'a list" where
  "insert_desc key x [] = [x]"
| "insert_desc key x (y # ys) =
     (if js_less (key x) (key y) then y # insert_desc key x ys else x # y # ys)"

definition sort_desc :: "('a \<Rightarrow> number) \<Rightarrow> 'a list \<Rightarrow> 'a list" where
  "sort_desc key xs = foldr (insert_desc key) xs []"

text \<open>The highlights of all assigned founders, highest growth first.\<close>

definition performanceHighlights :: "db \<Rightarrow> string list \<Rightarrow> string \<Rightarrow> string \<Rightarrow> PerformanceHighlight list" where
  "performanceHighlights d assignedFounderIds currentMonth prevMonth =
     sort_desc (\<lambda>h. Math_max (impressionsGrowth h) (engagementGrowth h))
       (concat (map (performanceHighlight d currentMonth prevMonth) assignedFounderIds))"

subsection \<open>Completion rates\<close>

text \<open>
  The founders assigned to an admin, as the admin dashboard collects them:
  \<open>Assignment.find({ adminId }).populate('founderId')\<close> and the \<open>_id\<close> of each populated
  profile. Every stored edge names an existing profile (an edge is created for a founder
  that was found, and no operation removes a profile), so this is the \<open>founderId\<close> of the
  admin's edges.
\<close>

definition assignedFounderIds :: "db \<Rightarrow> string \<Rightarrow> string list" where
  "assignedFounderIds d aId = map founderId (filter (\<lambda>e. adminId e = aId) (assignments d))"





subsection \<open>Milestones\<close>

text \<open>The milestones of \<open>getRecentActivities\<close> and its inner loop, which stops at the first hit.\<close>

definition milestones :: "int list" where
  "milestones = [100, 500, 1000]"

fun approaching :: "int \<Rightarrow> int list \<Rightarrow> (int \<times> int) list" where
  "approaching posts [] = []"
| "approaching posts (m # rest) =
     (if posts < m \<and> posts \<ge> m - 10
      then [(m, m - posts)]
      else approaching posts rest)"

definition founderTotalPosts :: "db \<Rightarrow> string \<Rightarrow> int" where
  "founderTotalPosts d fid =
     foldl (\<lambda>sum metric. sum + totalPosts metric) 0
       (filter (\<lambda>r. fm_founderId r = fid) (metrics d))"

record UpcomingMilestone =
  um_id :: string
  um_founderName :: string
  um_companyName :: string
  currentPosts :: int
  milestone :: int
  postsAway :: int

definition upcomingMilestones :: "db \<Rightarrow> UpcomingMilestone list" where
  "upcomingMilestones d =
     concat (map (\<lambda>founder.
        map (\<lambda>(m, away).
               \<lparr>um_id = founder_id founder,
                um_founderName = (case User_findById d (founder_userId founder) of
                                    None \<Rightarrow> ''Unknown'' | Some user \<Rightarrow> name user),
                um_companyName = (if companyName founder = [] then ''Unknown''
                                  else companyName founder),
                currentPosts = founderTotalPosts d (founder_id founder),
                milestone = m, postsAway = away\<rparr>)
          (approaching (founderTotalPosts d (founder_id founder)) milestones))
      (founders d))"

subsection \<open>The formulas in exact arithmetic\<close>

text \<open>
  The growth and the completion rate as quotients of rationals, before any rounding: what
  the double computations above approximate.
\<close>

definition exact_growth :: "int \<Rightarrow> int \<Rightarrow> rat" where
  "exact_growth current previous = of_int (current - previous) / of_int previous * 100"



section \<open>A sample database\<close>

text \<open>
  One founder with a profile and a user, a second founder without records, three admins,
  a super-admin, and a user of role founder that has no admin profile. Admin \<open>a3\<close> is
  assigned to the first founder, admin \<open>a1\<close> to the second.
\<close>

definition sample_users :: "string \<rightharpoonup> User" where
  "sample_users =
     [''f1'' \<mapsto> \<lparr>name = ''Fay'', email = ''fay@x.io'', role = FounderRole\<rparr>,
      ''f2'' \<mapsto> \<lparr>name = ''Flo'', email = ''flo@x.io'', role = FounderRole\<rparr>,
      ''a1'' \<mapsto> \<lparr>name = ''Ann'', email = ''ann@x.io'', role = AdminRole\<rparr>,
      ''a2'' \<mapsto> \<lparr>name = ''Abe'', email = ''abe@x.io'', role = AdminRole\<rparr>,
      ''a3'' \<mapsto> \<lparr>name = ''Ada'', email = ''ada@x.io'', role = AdminRole\<rparr>,
      ''s0'' \<mapsto> \<lparr>name = ''Sam'', email = ''sam@x.io'', role = SuperAdmin\<rparr>]"

definition sample_db :: db where
  "sample_db =
     \<lparr>users = sample_users,
      founders = [\<lparr>founder_id = ''p1'', founder_userId = ''f1'', companyName = ''Acme''\<rparr>,
                  \<lparr>founder_id = ''p2'', founder_userId = ''f2'', companyName = ''Bolt''\<rparr>],
      admins = [\<lparr>admin_id = ''q1'', admin_userId = ''a1''\<rparr>,
                \<lparr>admin_id = ''q2'', admin_userId = ''a2''\<rparr>,
                \<lparr>admin_id = ''q3'', admin_userId = ''a3''\<rparr>],
      assignments = [\<lparr>founderId = ''p1'', adminId = ''a3'', assignedBy = ''s0'', assignedAt = 1\<rparr>,
                     \<lparr>founderId = ''p2'', adminId = ''a1'', assignedBy = ''s0'', assignedAt = 2\<rparr>],
      metrics = [\<lparr>fm_founderId = ''f1'', uploadedBy = ''a3'', month = ''2025-05'',
                  totalPosts = 40, totalImpressions = 100, totalCommentOutreach = 0,
                  fm_notes = None, createdAt = 3, updatedAt = 3\<rparr>,
                 \<lparr>fm_founderId = ''f1'', uploadedBy = ''a3'', month = ''2025-06'',
                  totalPosts = 50, totalImpressions = 120, totalCommentOutreach = 50,
                  fm_notes = None, createdAt = 4, updatedAt = 4\<rparr>]\<rparr>"

text \<open>
  The sample database with two records stored under the founder profile id \<open>p1\<close>, as an
  upload by the super-admin for that id leaves them: 40 and 50 posts, 90 in all.
\<close>

definition milestone_db :: db where
  "milestone_db =
     sample_db\<lparr>metrics :=
       [\<lparr>fm_founderId = ''p1'', uploadedBy = ''s0'', month = ''2025-05'',
         totalPosts = 40, totalImpressions = 100, totalCommentOutreach = 10,
         fm_notes = None, createdAt = 3, updatedAt = 3\<rparr>,
        \<lparr>fm_founderId = ''p1'', uploadedBy = ''s0'', month = ''2025-06'',
         totalPosts = 50, totalImpressions = 130, totalCommentOutreach = 10,
         fm_notes = None, createdAt = 4, updatedAt = 4\<rparr>]\<rparr>"



section \<open>Proofs: the assignment graph\<close>

lemma find_hit_iff: "(find P xs \<noteq> None) = (\<exists>x\<in>set xs. P x)"
  by (induction xs) auto

lemma find_Some_ex: "(\<exists>y. find P xs = Some y) = (\<exists>x\<in>set xs. P x)"
  using find_hit_iff[of P xs] by auto

lemma newAssignments_Cons:
  "newAssignments fid (a # as) assigner now =
     \<lparr>founderId = fid, adminId = a, assignedBy = assigner, assignedAt = now\<rparr>
       # newAssignments fid as assigner now"
  by (simp add: newAssignments_def)

lemma adminId_newAssignments [simp]: "map adminId (newAssignments fid as assigner now) = as"
  by (simp add: newAssignments_def comp_def)

lemma filter_newAssignments [simp]:
  "filter (\<lambda>e. founderId e = fid) (newAssignments fid as assigner now) = newAssignments fid as assigner now"
  "filter (\<lambda>e. founderId e \<noteq> fid) (newAssignments fid as assigner now) = []"
  by (simp_all add: newAssignments_def filter_id_conv filter_empty_conv)

text \<open>
  Inserting fresh edges of one founder succeeds exactly when the admin ids are pairwise
  different and none of them is already stored for that founder.
\<close>

lemma insertMany_newAssignments:
  "Assignment_insertMany (newAssignments fid as assigner now) coll =
     (if distinct as \<and> (\<forall>e\<in>set coll. founderId e = fid \<longrightarrow> adminId e \<notin> set as)
      then Inr (coll @ newAssignments fid as assigner now)
      else Inl (MongoServerError ''E11000 duplicate key error''))"
proof (induction as arbitrary: coll)
  case Nil
  then show ?case by (simp add: newAssignments_def)
next
  case (Cons a as)
  show ?case
    unfolding newAssignments_Cons Assignment_insertMany.simps find_hit_iff
    using Cons.IH[of "coll @ [\<lparr>founderId = fid, adminId = a, assignedBy = assigner, assignedAt = now\<rparr>]"]
    by auto
qed

lemma validateAdmins_None: "validateAdmins d as = None \<longleftrightarrow> (\<forall>a\<in>set as. valid_admin d a)"
  by (induction as) (auto simp: valid_admin_def split: option.splits)

lemma validateAdmins_Some:
  "validateAdmins d as = Some e \<Longrightarrow> \<exists>msg. e = AppError msg 404 \<or> e = AppError msg 400"
  by (induction as) (auto split: option.splits if_splits)

lemma validateAdmins_assignments [simp]:
  "validateAdmins (d\<lparr>assignments := es\<rparr>) as = validateAdmins d as"
  by (induction as) (auto simp: Admin_findOne_def User_findById_def split: option.splits)

lemma valid_admin_assignments [simp]: "valid_admin (d\<lparr>assignments := es\<rparr>) a = valid_admin d a"
  by (simp add: valid_admin_def Admin_findOne_def User_findById_def)

lemma Founder_findOne_assignments [simp]:
  "Founder_findOne (d\<lparr>assignments := es\<rparr>) u = Founder_findOne d u"
  by (simp add: Founder_findOne_def)

text \<open>Once the founder and the admins have passed validation, only a repeated id can fail.\<close>

lemma assign_validated:
  assumes "Founder_findOne d fId = Some founder" "User_findById d fId = Some u"
    "role u = FounderRole" "validateAdmins d as = None"
  shows "assignAdminsToFounder fId as assigner now d =
     (if distinct as
      then (Inr (), d\<lparr>assignments := filter (\<lambda>e. founderId e \<noteq> founder_id founder) (assignments d)
                                 @ newAssignments (founder_id founder) as assigner now\<rparr>)
      else (Inl (MongoServerError ''E11000 duplicate key error''), d))"
proof (cases "as = []")
  case True
  then show ?thesis using assms by (simp add: assignAdminsToFounder_def newAssignments_def)
next
  case False
  then have ne: "newAssignments (founder_id founder) as assigner now \<noteq> []"
    by (simp add: newAssignments_def)
  show ?thesis using assms ne
    by (simp add: assignAdminsToFounder_def Let_def insertMany_newAssignments)
qed

lemma assign_not_validated:
  assumes "\<not> (\<exists>founder u. Founder_findOne d fId = Some founder \<and> User_findById d fId = Some u \<and>
        role u = FounderRole \<and> validateAdmins d as = None)"
  shows "fst (assignAdminsToFounder fId as assigner now d) \<noteq> Inr ()"
  using assms by (auto simp: assignAdminsToFounder_def split: option.splits)

lemma assign_Inr_iff:
  "assignAdminsToFounder fId as assigner now d = (Inr (), d') \<longleftrightarrow>
     (\<exists>founder u. Founder_findOne d fId = Some founder \<and> User_findById d fId = Some u \<and>
        role u = FounderRole \<and> validateAdmins d as = None \<and> distinct as \<and>
        d' = d\<lparr>assignments := filter (\<lambda>e. founderId e \<noteq> founder_id founder) (assignments d)
                                 @ newAssignments (founder_id founder) as assigner now\<rparr>)"
proof (cases "\<exists>founder u. Founder_findOne d fId = Some founder \<and> User_findById d fId = Some u \<and>
        role u = FounderRole \<and> validateAdmins d as = None")
  case True
  then obtain founder u where h: "Founder_findOne d fId = Some founder" "User_findById d fId = Some u"
     "role u = FounderRole" "validateAdmins d as = None" by blast
  show ?thesis unfolding assign_validated[OF h] using h by auto
next
  case False
  from assign_not_validated[OF this] have "fst (assignAdminsToFounder fId as assigner now d) \<noteq> Inr ()" .
  with False show ?thesis by (metis fst_conv)
qed

lemma assign_fail_unchanged:
  "fst (assignAdminsToFounder fId as assigner now d) \<noteq> Inr () \<Longrightarrow>
   snd (assignAdminsToFounder fId as assigner now d) = d"
  by (auto simp: assignAdminsToFounder_def Let_def split: option.splits sum.splits if_splits)

text \<open>A call with a founder of role founder, valid admins and no repeated id succeeds.\<close>

lemma assign_succeeds:
  assumes "Founder_findOne d fId = Some founder" "User_findById d fId = Some u"
    "role u = FounderRole" "\<forall>a\<in>set as. valid_admin d a" "distinct as"
  shows "fst (assignAdminsToFounder fId as assigner now d) = Inr ()"
  using assms assign_validated[OF assms(1-3), of as assigner now]
  by (simp add: validateAdmins_None)

text \<open>With a store that answers, the check is a membership test on the founder's edges.\<close>

lemma isAssigned_db:
  "isAdminAssignedToFounder d a fId =
     Inr (case Founder_findOne d fId of None \<Rightarrow> False
          | Some founder \<Rightarrow> \<exists>e\<in>set (assignments d). founderId e = founder_id founder \<and> adminId e = a)"
  by (auto simp: isAdminAssignedToFounder_def isAdminAssignedToFounder_on_def
      isAdminAssignedToFounder_try_def store_of_def Assignment_findOne_def find_hit_iff
      find_Some_ex split: option.splits)

lemma filter_unique_key:
  "distinct (map f xs) \<Longrightarrow> x \<in> set xs \<Longrightarrow> filter (\<lambda>y. f y = f x) xs = [x]"
proof (induction xs)
  case Nil
  then show ?case by simp
next
  case (Cons y ys)
  show ?case
  proof (cases "y = x")
    case True
    with Cons.prems have "\<forall>z\<in>set ys. f z \<noteq> f x" by (auto simp: image_iff)
    then have "filter (\<lambda>y. f y = f x) ys = []" by (simp add: filter_empty_conv)
    with True show ?thesis by simp
  next
    case False
    with Cons.prems have "x \<in> set ys" "f y \<noteq> f x" "distinct (map f ys)" by (auto simp: image_iff)
    with Cons.IH show ?thesis by simp
  qed
qed

text \<open>
  The join of one edge of a valid admin yields that admin at least once, and exactly once
  when no two admin profiles share a user.
\<close>

lemma adminRows_ids:
  assumes "valid_admin d (adminId e)"
  shows "\<exists>k. map ad_adminId (adminRows d e) = adminId e # replicate k (adminId e) \<and>
           (distinct (map admin_userId (admins d)) \<longrightarrow> k = 0)"
proof -
  let ?a = "adminId e"
  from assms obtain u where u: "User_findById d ?a = Some u"
    by (auto simp: valid_admin_def split: option.splits)
  from assms obtain adm where adm: "adm \<in> set (admins d)" "admin_userId adm = ?a"
    using find_hit_iff[of "\<lambda>x. admin_userId x = ?a" "admins d"]
    by (auto simp: valid_admin_def Admin_findOne_def)
  let ?as = "filter (\<lambda>x. admin_userId x = ?a) (admins d)"
  have "adm \<in> set ?as" using adm by simp
  then obtain k where k: "length ?as = Suc k" by (cases ?as) auto
  have gen: "\<And>xs::Admin list. map ad_adminId (concat (map (\<lambda>admin.
             [\<lparr>ad_adminId = ?a, ad_name = name u, ad_email = email u\<rparr>]) xs)) = replicate (length xs) ?a"
    by (induct_tac xs) auto
  have m: "map ad_adminId (adminRows d e) = replicate (length ?as) ?a"
    using u gen[of ?as] by (simp add: adminRows_def)
  have "distinct (map admin_userId (admins d)) \<Longrightarrow> k = 0"
    using filter_unique_key[of admin_userId "admins d" adm] adm k by simp
  with m k show ?thesis by auto
qed

lemma rows_of_newAssignments:
  assumes "\<forall>a\<in>set as. valid_admin d a"
  shows "set (map ad_adminId (concat (map (adminRows d) (newAssignments fid as assigner now)))) = set as \<and>
         (distinct (map admin_userId (admins d)) \<longrightarrow>
            map ad_adminId (concat (map (adminRows d) (newAssignments fid as assigner now))) = as)"
  using assms
proof (induction as)
  case Nil
  then show ?case by (simp add: newAssignments_def)
next
  case (Cons a as)
  let ?e = "\<lparr>founderId = fid, adminId = a, assignedBy = assigner, assignedAt = now\<rparr>"
  from Cons.prems have "valid_admin d (adminId ?e)" by simp
  from adminRows_ids[OF this] obtain k where
    k: "map ad_adminId (adminRows d ?e) = a # replicate k a"
       "distinct (map admin_userId (admins d)) \<longrightarrow> k = 0" by auto
  from Cons have IH: "set (map ad_adminId (concat (map (adminRows d) (newAssignments fid as assigner now)))) = set as"
     "distinct (map admin_userId (admins d)) \<longrightarrow>
            map ad_adminId (concat (map (adminRows d) (newAssignments fid as assigner now))) = as"
    by auto
  show ?case
    unfolding newAssignments_Cons using k IH by auto
qed

lemma getAssignedAdmins_rows:
  assumes "Founder_findOne d fId = Some founder"
    and "filter (\<lambda>e. founderId e = founder_id founder) (assignments d) =
           newAssignments (founder_id founder) as assigner now"
    and "\<forall>a\<in>set as. valid_admin d a"
  shows "\<exists>rs. getAssignedAdmins d fId = Inr rs \<and> set (map ad_adminId rs) = set as \<and>
           (distinct (map admin_userId (admins d)) \<longrightarrow> map ad_adminId rs = as)"
  using assms(1,2) rows_of_newAssignments[OF assms(3), of "founder_id founder" assigner now]
  by (simp add: getAssignedAdmins_def)

text \<open>
  Claim C1. After a successful \<open>assignAdminsToFounder\<close> for founder \<open>F\<close> with admin ids
  \<open>S\<close>, the stored edges of \<open>F\<close> are exactly the freshly built ones, one per id of \<open>S\<close>
  and no id twice; \<open>getAssignedAdmins\<close> lists exactly the ids of \<open>S\<close> (as a set, and as
  the very list when admin profiles are unique per user); every id of \<open>S\<close> is assigned
  to \<open>F\<close>, and every other id, in particular one that had an edge before, is not.
\<close>

theorem replaceAssignments_exact:
  assumes ok: "assignAdminsToFounder fId S assigner now d = (Inr (), d')"
  shows "\<exists>founder rs.
           Founder_findOne d' fId = Some founder \<and>
           filter (\<lambda>e. founderId e = founder_id founder) (assignments d') =
             newAssignments (founder_id founder) S assigner now \<and>
           map adminId (filter (\<lambda>e. founderId e = founder_id founder) (assignments d')) = S \<and>
           distinct S \<and>
           getAssignedAdmins d' fId = Inr rs \<and> set (map ad_adminId rs) = set S \<and>
           (distinct (map admin_userId (admins d')) \<longrightarrow> map ad_adminId rs = S) \<and>
           (\<forall>a\<in>set S. isAdminAssignedToFounder d' a fId = Inr True) \<and>
           (\<forall>prior. prior \<notin> set S \<longrightarrow> isAdminAssignedToFounder d' prior fId = Inr False)"
proof -
  from ok obtain founder where
    f: "Founder_findOne d fId = Some founder" and
    v: "validateAdmins d S = None" and dist: "distinct S" and
    d': "d' = d\<lparr>assignments := filter (\<lambda>e. founderId e \<noteq> founder_id founder) (assignments d)
                                 @ newAssignments (founder_id founder) S assigner now\<rparr>"
    unfolding assign_Inr_iff by blast
  let ?fid = "founder_id founder"
  have f': "Founder_findOne d' fId = Some founder" using f d' by simp
  have edges: "filter (\<lambda>e. founderId e = ?fid) (assignments d') = newAssignments ?fid S assigner now"
    using d' by (simp add: filter_empty_conv)
  have valid: "\<forall>a\<in>set S. valid_admin d' a"
    using v d' by (simp add: validateAdmins_None)
  from getAssignedAdmins_rows[OF f' edges valid] obtain rs where
    rs: "getAssignedAdmins d' fId = Inr rs" "set (map ad_adminId rs) = set S"
        "distinct (map admin_userId (admins d')) \<longrightarrow> map ad_adminId rs = S" by blast
  have member: "(\<exists>e\<in>set (assignments d'). founderId e = ?fid \<and> adminId e = a) = (a \<in> set S)" for a
  proof -
    have "(\<exists>e\<in>set (assignments d'). founderId e = ?fid \<and> adminId e = a)
         = (a \<in> set (map adminId (filter (\<lambda>e. founderId e = ?fid) (assignments d'))))"
      by (auto simp: image_iff)
    then show ?thesis unfolding edges by simp
  qed
  have assigned: "isAdminAssignedToFounder d' a fId = Inr (a \<in> set S)" for a
    unfolding isAssigned_db f' using member by simp
  show ?thesis
    using f' edges dist rs assigned by (intro exI[of _ founder] exI[of _ rs]) simp
qed

theorem replaceAssignments_exact_witness:
  "assignAdminsToFounder ''f1'' [''a1'', ''a2''] ''s0'' 9 sample_db =
     (Inr (), sample_db\<lparr>assignments :=
       [\<lparr>founderId = ''p2'', adminId = ''a1'', assignedBy = ''s0'', assignedAt = 2\<rparr>,
        \<lparr>founderId = ''p1'', adminId = ''a1'', assignedBy = ''s0'', assignedAt = 9\<rparr>,
        \<lparr>founderId = ''p1'', adminId = ''a2'', assignedBy = ''s0'', assignedAt = 9\<rparr>]\<rparr>) \<and>
   isAdminAssignedToFounder sample_db ''a3'' ''f1'' = Inr True \<and>
   isAdminAssignedToFounder
     (snd (assignAdminsToFounder ''f1'' [''a1'', ''a2''] ''s0'' 9 sample_db)) ''a3'' ''f1'' = Inr False \<and>
   isAdminAssignedToFounder
     (snd (assignAdminsToFounder ''f1'' [''a1'', ''a2''] ''s0'' 9 sample_db)) ''a2'' ''f1'' = Inr True \<and>
   (\<exists>rs. getAssignedAdmins
       (snd (assignAdminsToFounder ''f1'' [''a1'', ''a2''] ''s0'' 9 sample_db)) ''f1'' = Inr rs \<and>
      map ad_adminId rs = [''a1'', ''a2''])"
proof -
  define d' where "d' = sample_db\<lparr>assignments :=
       [\<lparr>founderId = ''p2'', adminId = ''a1'', assignedBy = ''s0'', assignedAt = 2\<rparr>,
        \<lparr>founderId = ''p1'', adminId = ''a1'', assignedBy = ''s0'', assignedAt = 9\<rparr>,
        \<lparr>founderId = ''p1'', adminId = ''a2'', assignedBy = ''s0'', assignedAt = 9\<rparr>]\<rparr>"
  have h: "assignAdminsToFounder ''f1'' [''a1'', ''a2''] ''s0'' 9 sample_db = (Inr (), d')"
    by (simp add: d'_def assignAdminsToFounder_def sample_db_def sample_users_def Founder_findOne_def
         Admin_findOne_def User_findById_def newAssignments_def)
  have before: "isAdminAssignedToFounder sample_db ''a3'' ''f1'' = Inr True"
    by (simp add: isAssigned_db Founder_findOne_def sample_db_def)
  have uniq: "distinct (map admin_userId (admins d'))"
    by (simp add: d'_def sample_db_def)
  from replaceAssignments_exact[OF h] obtain rs where
    "getAssignedAdmins d' ''f1'' = Inr rs"
    "distinct (map admin_userId (admins d')) \<longrightarrow> map ad_adminId rs = [''a1'', ''a2'']"
    "\<forall>a\<in>set [''a1'', ''a2'']. isAdminAssignedToFounder d' a ''f1'' = Inr True"
    "\<forall>prior. prior \<notin> set [''a1'', ''a2''] \<longrightarrow> isAdminAssignedToFounder d' prior ''f1'' = Inr False"
    by (elim exE conjE) (rule that, assumption+)
  with uniq have "isAdminAssignedToFounder d' ''a3'' ''f1'' = Inr False"
    "isAdminAssignedToFounder d' ''a2'' ''f1'' = Inr True"
    "\<exists>rs. getAssignedAdmins d' ''f1'' = Inr rs \<and> map ad_adminId rs = [''a1'', ''a2'']"
    by auto
  with before show ?thesis unfolding h unfolding d'_def by simp
qed

text \<open>
  Claim C2. When some id of \<open>S\<close> is not a valid admin, the call fails with an error
  of status 404 (not found) or 400 (wrong role), the database is returned as it was, and
  so is the list of the founder's admins.
\<close>

theorem replaceAssignments_all_or_nothing:
  assumes "\<exists>a\<in>set S. \<not> valid_admin d a"
  shows "\<exists>e. assignAdminsToFounder fId S assigner now d = (Inl e, d) \<and>
           (statusCode e = 404 \<or> statusCode e = 400) \<and>
           getAssignedAdmins (snd (assignAdminsToFounder fId S assigner now d)) fId = getAssignedAdmins d fId"
proof -
  from assms have "validateAdmins d S \<noteq> None" by (simp add: validateAdmins_None)
  then obtain e where e: "validateAdmins d S = Some e" by auto
  from validateAdmins_Some[OF e] obtain msg where "e = AppError msg 404 \<or> e = AppError msg 400" by blast
  with e show ?thesis
    by (auto simp: assignAdminsToFounder_def split: option.splits)
qed

theorem replaceAssignments_all_or_nothing_witness:
  "(\<exists>a\<in>set [''a1'', ''f2'']. \<not> valid_admin sample_db a) \<and>
   assignAdminsToFounder ''f1'' [''a1'', ''f2''] ''s0'' 9 sample_db =
     (Inl (AppError ''Admin with ID f2 not found'' 404), sample_db)"
proof -
  have h: "\<exists>a\<in>set [''a1'', ''f2'']. \<not> valid_admin sample_db a"
    by (simp add: valid_admin_def sample_db_def sample_users_def Admin_findOne_def User_findById_def)
  have r: "assignAdminsToFounder ''f1'' [''a1'', ''f2''] ''s0'' 9 sample_db =
     (Inl (AppError ''Admin with ID f2 not found'' 404), sample_db)"
    by (simp add: assignAdminsToFounder_def sample_db_def sample_users_def Founder_findOne_def
         Admin_findOne_def User_findById_def)
  from replaceAssignments_all_or_nothing[OF h, of "''f1''" "''s0''" 9] r h show ?thesis by simp
qed

text \<open>
  Claim C8. Calling \<open>assignAdminsToFounder\<close> twice with the same arguments leaves the
  same result and database as the second call alone, and the same edges, up to the time
  they were stored at, as a single call at any time.
\<close>

theorem replaceAssignments_idempotent:
  "assignAdminsToFounder fId S assigner t2 (snd (assignAdminsToFounder fId S assigner t1 d)) =
     assignAdminsToFounder fId S assigner t2 d \<and>
   map edge_key (assignments (snd (assignAdminsToFounder fId S assigner t2
        (snd (assignAdminsToFounder fId S assigner t1 d))))) =
     map edge_key (assignments (snd (assignAdminsToFounder fId S assigner t d)))"
proof -
  have keys: "map edge_key (newAssignments fid S assigner t) = map edge_key (newAssignments fid S assigner t')"
    for fid t t'
    by (simp add: newAssignments_def edge_key_def)
  have twice: "assignAdminsToFounder fId S assigner t2 (snd (assignAdminsToFounder fId S assigner t1 d)) =
     assignAdminsToFounder fId S assigner t2 d"
  proof (cases "fst (assignAdminsToFounder fId S assigner t1 d) = Inr ()")
    case False
    then show ?thesis by (simp add: assign_fail_unchanged)
  next
    case True
    then have "assignAdminsToFounder fId S assigner t1 d =
        (Inr (), snd (assignAdminsToFounder fId S assigner t1 d))"
      by (metis prod.collapse)
    then obtain founder u where
      h: "Founder_findOne d fId = Some founder" "User_findById d fId = Some u" "role u = FounderRole"
         "validateAdmins d S = None" and dist: "distinct S" and
      d1: "snd (assignAdminsToFounder fId S assigner t1 d) =
             d\<lparr>assignments := filter (\<lambda>e. founderId e \<noteq> founder_id founder) (assignments d)
                               @ newAssignments (founder_id founder) S assigner t1\<rparr>"
      unfolding assign_Inr_iff by blast
    define d1 where "d1 = snd (assignAdminsToFounder fId S assigner t1 d)"
    have d1': "d1 = d\<lparr>assignments := filter (\<lambda>e. founderId e \<noteq> founder_id founder) (assignments d)
                               @ newAssignments (founder_id founder) S assigner t1\<rparr>"
      using d1 by (simp add: d1_def)
    have h1: "Founder_findOne d1 fId = Some founder" "User_findById d1 fId = Some u"
         "validateAdmins d1 S = None"
      using h unfolding d1' by (simp_all add: User_findById_def)
    have c: "d1\<lparr>assignments := filter (\<lambda>e. founderId e \<noteq> founder_id founder) (assignments d1)
                               @ newAssignments (founder_id founder) S assigner t2\<rparr> =
             d\<lparr>assignments := filter (\<lambda>e. founderId e \<noteq> founder_id founder) (assignments d)
                               @ newAssignments (founder_id founder) S assigner t2\<rparr>"
      unfolding d1' by simp
    have "assignAdminsToFounder fId S assigner t2 d1 = assignAdminsToFounder fId S assigner t2 d"
      using dist
      by (simp only: assign_validated[OF h1(1,2) h(3) h1(3)] assign_validated[OF h] c if_True)
    then show ?thesis by (simp add: d1_def)
  qed
  have once: "map edge_key (assignments (snd (assignAdminsToFounder fId S assigner t d))) =
      map edge_key (assignments (snd (assignAdminsToFounder fId S assigner t' d)))" for t t'
  proof (cases "\<exists>founder u. Founder_findOne d fId = Some founder \<and> User_findById d fId = Some u \<and>
        role u = FounderRole \<and> validateAdmins d S = None")
    case True
    then obtain founder u where h: "Founder_findOne d fId = Some founder" "User_findById d fId = Some u"
      "role u = FounderRole" "validateAdmins d S = None" by blast
    show ?thesis unfolding assign_validated[OF h] using keys[of "founder_id founder" t t'] by simp
  next
    case False
    from assign_not_validated[OF this]
    have "fst (assignAdminsToFounder fId S assigner t d) \<noteq> Inr ()" for t .
    then show ?thesis by (simp add: assign_fail_unchanged)
  qed
  show ?thesis unfolding twice using once[of t2 t] by simp
qed

theorem replaceAssignments_idempotent_witness:
  "fst (assignAdminsToFounder ''f1'' [''a1'', ''a2''] ''s0'' 9 sample_db) = Inr () \<and>
   assignAdminsToFounder ''f1'' [''a1'', ''a2''] ''s0'' 9
       (snd (assignAdminsToFounder ''f1'' [''a1'', ''a2''] ''s0'' 7 sample_db)) =
     assignAdminsToFounder ''f1'' [''a1'', ''a2''] ''s0'' 9 sample_db"
proof -
  have "fst (assignAdminsToFounder ''f1'' [''a1'', ''a2''] ''s0'' 9 sample_db) = Inr ()"
    by (simp add: assignAdminsToFounder_def sample_db_def sample_users_def Founder_findOne_def
         Admin_findOne_def User_findById_def newAssignments_def)
  with replaceAssignments_idempotent[of "''f1''" "[''a1'', ''a2'']" "''s0''" 9 7 sample_db 9]
  show ?thesis by simp
qed

text \<open>
  Claim C10. \<open>isAdminAssignedToFounder\<close> always resolves to a boolean: whatever the store
  does, the promise is never rejected. It resolves to \<open>false\<close> when the founder lookup
  throws or finds no founder and when the assignment lookup throws; otherwise it tells
  whether an edge was found. On a database, an unknown founder id gives \<open>false\<close>.
\<close>

theorem isAdminAssignedToFounder_total_deny:
  "(\<exists>b. isAdminAssignedToFounder_on s aId fId = Inr b) \<and>
   ((\<exists>err. findFounder s fId = Inl err) \<longrightarrow> isAdminAssignedToFounder_on s aId fId = Inr False) \<and>
   (findFounder s fId = Inr None \<longrightarrow> isAdminAssignedToFounder_on s aId fId = Inr False) \<and>
   (\<forall>founder. findFounder s fId = Inr (Some founder) \<longrightarrow>
      ((\<exists>err. findAssignment s (founder_id founder) aId = Inl err) \<longrightarrow>
         isAdminAssignedToFounder_on s aId fId = Inr False) \<and>
      (\<forall>r. findAssignment s (founder_id founder) aId = Inr r \<longrightarrow>
         isAdminAssignedToFounder_on s aId fId = Inr (r \<noteq> None))) \<and>
   (\<exists>b. isAdminAssignedToFounder d aId fId = Inr b) \<and>
   (Founder_findOne d fId = None \<longrightarrow> isAdminAssignedToFounder d aId fId = Inr False)"
  by (auto simp: isAdminAssignedToFounder_def isAdminAssignedToFounder_on_def
      isAdminAssignedToFounder_try_def store_of_def split: sum.splits option.splits)

theorem isAdminAssignedToFounder_total_deny_witness:
  "isAdminAssignedToFounder_on
     \<lparr>findFounder = (\<lambda>uid. Inl (MongoServerError ''connection closed'')),
      findAssignment = (\<lambda>fid aid. Inr None)\<rparr> ''a3'' ''f1'' = Inr False \<and>
   isAdminAssignedToFounder_on
     \<lparr>findFounder = (\<lambda>uid. Inr (Founder_findOne sample_db uid)),
      findAssignment = (\<lambda>fid aid. Inl (MongoServerError ''connection closed''))\<rparr> ''a3'' ''f1'' = Inr False \<and>
   Founder_findOne sample_db ''zz'' = None \<and>
   isAdminAssignedToFounder sample_db ''a3'' ''zz'' = Inr False"
proof -
  let ?s1 = "\<lparr>findFounder = (\<lambda>uid. Inl (MongoServerError ''connection closed'')),
      findAssignment = (\<lambda>fid aid. Inr None)\<rparr>"
  let ?s2 = "\<lparr>findFounder = (\<lambda>uid. Inr (Founder_findOne sample_db uid)),
      findAssignment = (\<lambda>fid aid. Inl (MongoServerError ''connection closed''))\<rparr>"
  have f: "Founder_findOne sample_db ''f1'' =
             Some \<lparr>founder_id = ''p1'', founder_userId = ''f1'', companyName = ''Acme''\<rparr>"
    by (simp add: Founder_findOne_def sample_db_def)
  have z: "Founder_findOne sample_db ''zz'' = None"
    by (simp add: Founder_findOne_def sample_db_def)
  have a: "isAdminAssignedToFounder_on ?s1 ''a3'' ''f1'' = Inr False"
    using isAdminAssignedToFounder_total_deny[of ?s1 "''a3''" "''f1''" sample_db] by simp
  have b: "isAdminAssignedToFounder_on ?s2 ''a3'' ''f1'' = Inr False"
    using isAdminAssignedToFounder_total_deny[of ?s2 "''a3''" "''f1''" sample_db] f by simp
  have c: "isAdminAssignedToFounder sample_db ''a3'' ''zz'' = Inr False"
    using isAdminAssignedToFounder_total_deny[of ?s1 "''a3''" "''zz''" sample_db] z by simp
  from a b c z show ?thesis by simp
qed

section \<open>Proofs: reading a founder's metrics\<close>

lemma find_unique_key:
  "distinct (map k xs) \<Longrightarrow> x \<in> set xs \<Longrightarrow> find (\<lambda>y. k y = k x) xs = Some x"
proof (induction xs)
  case Nil
  then show ?case by simp
next
  case (Cons y ys)
  show ?case
  proof (cases "y = x")
    case True
    then show ?thesis by simp
  next
    case False
    with Cons.prems have "x \<in> set ys" by simp
    then have "k x \<in> k ` set ys" by (rule imageI)
    with Cons.prems have "k y \<noteq> k x" by auto
    with Cons.IH Cons.prems \<open>x \<in> set ys\<close> show ?thesis by simp
  qed
qed

lemma founderRows_mem:
  "F \<in> set (map af_founderId (founderRows d e)) \<longleftrightarrow>
     (\<exists>f\<in>set (founders d). founder_id f = founderId e \<and> founder_userId f = F \<and>
        User_findById d F \<noteq> None)"
proof -
  have "F \<in> set (map af_founderId (concat (map (\<lambda>founder.
        (case User_findById d (founder_userId founder) of
           None \<Rightarrow> []
         | Some user \<Rightarrow>
             [\<lparr>af_adminId = adminId e, af_founderId = founder_userId founder,
               af_assignedAt = assignedAt e, af_name = name user, af_email = email user,
               af_companyName = companyName founder\<rparr>]))
      (filter (\<lambda>f. founder_id f = founderId e) xs)))) \<longleftrightarrow>
     (\<exists>f\<in>set xs. founder_id f = founderId e \<and> founder_userId f = F \<and>
        User_findById d F \<noteq> None)" for xs :: "Founder list"
    by (induction xs) (auto split: option.splits)
  then show ?thesis unfolding founderRows_def .
qed



lemma rows_mem:
  "F \<in> set (map af_founderId (concat (map (founderRows d) es))) \<longleftrightarrow>
     (\<exists>e\<in>set es. F \<in> set (map af_founderId (founderRows d e)))"
  by (induction es) auto

lemma assigned_rows_iff:
  assumes uniq: "distinct (map founder_userId (founders d))" and user: "User_findById d F \<noteq> None"
  shows "F \<in> set (map af_founderId (concat (map (founderRows d)
                (filter (\<lambda>e. adminId e = X) (assignments d))))) \<longleftrightarrow>
         isAdminAssignedToFounder d X F = Inr True"
proof -
  have lhs: "F \<in> set (map af_founderId (concat (map (founderRows d)
                (filter (\<lambda>e. adminId e = X) (assignments d))))) \<longleftrightarrow>
     (\<exists>e\<in>set (assignments d). adminId e = X \<and>
        (\<exists>f\<in>set (founders d). founder_id f = founderId e \<and> founder_userId f = F))"
    unfolding rows_mem founderRows_mem using user by auto
  show ?thesis
  proof (cases "Founder_findOne d F")
    case None
    then have no: "\<forall>f\<in>set (founders d). founder_userId f \<noteq> F"
      using find_hit_iff[of "\<lambda>f. founder_userId f = F" "founders d"]
      by (simp add: Founder_findOne_def)
    have "\<not> (\<exists>e\<in>set (assignments d). adminId e = X \<and>
        (\<exists>f\<in>set (founders d). founder_id f = founderId e \<and> founder_userId f = F))"
      using no by blast
    then show ?thesis unfolding lhs isAssigned_db None by simp
  next
    case (Some f0)
    then have f0: "f0 \<in> set (founders d)" "founder_userId f0 = F"
      unfolding Founder_findOne_def find_Some_iff by (auto simp: in_set_conv_nth)
    have only: "f = f0" if "f \<in> set (founders d)" "founder_userId f = F" for f
    proof -
      from find_unique_key[OF uniq that(1)] have "find (\<lambda>y. founder_userId y = F) (founders d) = Some f"
        using that(2) by simp
      with Some show ?thesis by (simp add: Founder_findOne_def)
    qed
    have "(\<exists>e\<in>set (assignments d). adminId e = X \<and>
        (\<exists>f\<in>set (founders d). founder_id f = founderId e \<and> founder_userId f = F)) \<longleftrightarrow>
        (\<exists>e\<in>set (assignments d). founderId e = founder_id f0 \<and> adminId e = X)"
      using f0 only by metis
    then show ?thesis unfolding lhs isAssigned_db Some by simp
  qed
qed

text \<open>
  The permission handler decides by the same table when the route names the founder by
  the id of its profile, which is the id the edges are stored under.
\<close>

lemma canAccessFounderContent_table:
  "canAccessFounderContent d p U SuperAdmin \<and>
   canAccessFounderContent d p U FounderRole = (p = U) \<and>
   (Founder_findOne d F = Some founder \<longrightarrow>
      canAccessFounderContent d (founder_id founder) X AdminRole =
        (isAdminAssignedToFounder d X F = Inr True))"
  by (auto simp: canAccessFounderContent_def isAssigned_db Assignment_findOne_def find_hit_iff
      find_Some_ex)

text \<open>
  Claim C3. Reading a founder's metrics through \<open>metricsController.getFounderMetrics\<close>:
  an admin with a profile succeeds exactly when \<open>isAdminAssignedToFounder\<close> holds for
  the founder and gets status 403 otherwise (founder profiles are unique per user, as the
  schema's index has it, and the founder's user exists); a founder actor gets 403 for
  every id other than its own and succeeds for its own; a super-admin always succeeds.
\<close>

theorem metrics_read_scoped:
  assumes "valid_admin d X" "distinct (map founder_userId (founders d))" "User_findById d F \<noteq> None"
  shows "(isAdminAssignedToFounder d X F = Inr True \<longrightarrow>
            metricsController_getFounderMetrics d X AdminRole F = Inr (getFounderMetrics d F)) \<and>
         (isAdminAssignedToFounder d X F \<noteq> Inr True \<longrightarrow>
            metricsController_getFounderMetrics d X AdminRole F =
              Inl (AppError ''You can only view metrics for founders assigned to you'' 403)) \<and>
         (\<forall>U G. G \<noteq> U \<longrightarrow>
            metricsController_getFounderMetrics d U FounderRole G =
              Inl (AppError ''You can only view your own metrics'' 403)) \<and>
         (\<forall>U. getFounderByUserId d U \<noteq> None \<longrightarrow>
            metricsController_getFounderMetrics d U FounderRole U = Inr (getFounderMetrics d U)) \<and>
         (\<forall>U G. metricsController_getFounderMetrics d U SuperAdmin G = Inr (getFounderMetrics d G))"
proof -
  from assms(1) obtain u where adm: "Admin_findOne d X \<noteq> None" "User_findById d X = Some u" "role u = AdminRole"
    by (auto simp: valid_admin_def split: option.splits)
  then have rows: "getAssignedFounders d X =
      Inr (concat (map (founderRows d) (filter (\<lambda>e. adminId e = X) (assignments d))))"
    by (auto simp: getAssignedFounders_def)
  have admin: "metricsController_getFounderMetrics d X AdminRole F =
      (if isAdminAssignedToFounder d X F = Inr True then Inr (getFounderMetrics d F)
       else Inl (AppError ''You can only view metrics for founders assigned to you'' 403))"
    using assigned_rows_iff[OF assms(2,3), of X]
    by (simp add: metricsController_getFounderMetrics_def rows)
  have founder_other: "metricsController_getFounderMetrics d U FounderRole G =
              Inl (AppError ''You can only view your own metrics'' 403)" if "G \<noteq> U" for U G
  proof (cases "getFounderByUserId d U")
    case None
    then show ?thesis by (simp add: metricsController_getFounderMetrics_def)
  next
    case (Some f)
    then have "founder_userId f = U"
      by (auto simp: getFounderByUserId_def Founder_findOne_def find_Some_iff)
    with Some that show ?thesis by (simp add: metricsController_getFounderMetrics_def)
  qed
  have founder_own: "metricsController_getFounderMetrics d U FounderRole U = Inr (getFounderMetrics d U)"
    if "getFounderByUserId d U \<noteq> None" for U
  proof -
    from that obtain f where f: "getFounderByUserId d U = Some f" by auto
    then have "founder_userId f = U"
      by (auto simp: getFounderByUserId_def Founder_findOne_def find_Some_iff)
    with f show ?thesis by (simp add: metricsController_getFounderMetrics_def)
  qed
  have super: "metricsController_getFounderMetrics d U SuperAdmin G = Inr (getFounderMetrics d G)" for U G
    by (simp add: metricsController_getFounderMetrics_def)
  show ?thesis using admin founder_other founder_own super by simp
qed

theorem metrics_read_scoped_witness:
  "valid_admin sample_db ''a3'' \<and> valid_admin sample_db ''a1'' \<and>
   distinct (map founder_userId (founders sample_db)) \<and>
   User_findById sample_db ''f1'' \<noteq> None \<and>
   isAdminAssignedToFounder sample_db ''a3'' ''f1'' = Inr True \<and>
   metricsController_getFounderMetrics sample_db ''a3'' AdminRole ''f1'' = Inr (getFounderMetrics sample_db ''f1'') \<and>
   isAdminAssignedToFounder sample_db ''a1'' ''f1'' = Inr False \<and>
   metricsController_getFounderMetrics sample_db ''a1'' AdminRole ''f1'' =
     Inl (AppError ''You can only view metrics for founders assigned to you'' 403) \<and>
   metricsController_getFounderMetrics sample_db ''f2'' FounderRole ''f1'' =
     Inl (AppError ''You can only view your own metrics'' 403) \<and>
   metricsController_getFounderMetrics sample_db ''f1'' FounderRole ''f1'' = Inr (getFounderMetrics sample_db ''f1'') \<and>
   metricsController_getFounderMetrics sample_db ''s0'' SuperAdmin ''f1'' = Inr (getFounderMetrics sample_db ''f1'')"
proof -
  have v3: "valid_admin sample_db ''a3''" and v1: "valid_admin sample_db ''a1''"
    by (simp_all add: valid_admin_def sample_db_def sample_users_def Admin_findOne_def User_findById_def)
  have u: "distinct (map founder_userId (founders sample_db))"
    by (simp add: sample_db_def)
  have f: "User_findById sample_db ''f1'' \<noteq> None"
    by (simp add: sample_db_def sample_users_def User_findById_def)
  have y: "isAdminAssignedToFounder sample_db ''a3'' ''f1'' = Inr True"
    by (simp add: isAssigned_db Founder_findOne_def sample_db_def)
  have n: "isAdminAssignedToFounder sample_db ''a1'' ''f1'' = Inr False"
    by (simp add: isAssigned_db Founder_findOne_def sample_db_def)
  have own: "getFounderByUserId sample_db ''f1'' \<noteq> None"
    by (simp add: getFounderByUserId_def Founder_findOne_def sample_db_def)
  from metrics_read_scoped[OF v3 u f] metrics_read_scoped[OF v1 u f] v3 v1 u f y n own
  show ?thesis by simp
qed

section \<open>Proofs: the metrics repository\<close>

lemma save_first_split:
  "find P xs = Some r \<Longrightarrow>
     \<exists>pre post. xs = pre @ r # post \<and> (\<forall>x\<in>set pre. \<not> P x) \<and> P r \<and>
        save_first P doc xs = pre @ doc # post"
proof (induction xs)
  case Nil
  then show ?case by simp
next
  case (Cons x xs)
  show ?case
  proof (cases "P x")
    case True
    with Cons.prems have "x = r" by simp
    with True show ?thesis by (intro exI[of _ "[]"] exI[of _ xs]) simp
  next
    case False
    with Cons.prems have "find P xs = Some r" by simp
    from Cons.IH[OF this] obtain pre post where
      h: "xs = pre @ r # post" "\<forall>x\<in>set pre. \<not> P x" "P r" "save_first P doc xs = pre @ doc # post"
      by blast
    with False show ?thesis by (intro exI[of _ "x # pre"] exI[of _ post]) simp
  qed
qed

lemma find_None_filter: "find P xs = None \<Longrightarrow> filter P xs = []"
  by (induction xs) (auto split: if_splits)

lemma upload_existing:
  assumes "FounderMetrics_findOne d F M = Some existing" "validCounters dat"
  shows "\<exists>pre post. metrics d = pre @ existing # post \<and>
           (\<forall>x\<in>set pre. \<not> (fm_founderId x = F \<and> month x = M)) \<and>
           fm_founderId existing = F \<and> month existing = M \<and>
           uploadMetrics F up M dat now d =
             (Inr (existing\<lparr>totalPosts := d_totalPosts dat,
                           totalImpressions := d_totalImpressions dat,
                           totalCommentOutreach := d_totalCommentOutreach dat,
                           fm_notes := d_notes dat, uploadedBy := up, updatedAt := now\<rparr>),
              d\<lparr>metrics := pre @ existing\<lparr>totalPosts := d_totalPosts dat,
                           totalImpressions := d_totalImpressions dat,
                           totalCommentOutreach := d_totalCommentOutreach dat,
                           fm_notes := d_notes dat, uploadedBy := up, updatedAt := now\<rparr> # post\<rparr>)"
proof -
  let ?saved = "existing\<lparr>totalPosts := d_totalPosts dat,
                           totalImpressions := d_totalImpressions dat,
                           totalCommentOutreach := d_totalCommentOutreach dat,
                           fm_notes := d_notes dat, uploadedBy := up, updatedAt := now\<rparr>"
  from assms(1) have "find (\<lambda>r. fm_founderId r = F \<and> month r = M) (metrics d) = Some existing"
    by (simp add: FounderMetrics_findOne_def)
  from save_first_split[OF this, of ?saved] obtain pre post where
    h: "metrics d = pre @ existing # post" "\<forall>x\<in>set pre. \<not> (fm_founderId x = F \<and> month x = M)"
       "fm_founderId existing = F \<and> month existing = M"
       "save_first (\<lambda>r. fm_founderId r = F \<and> month r = M) ?saved (metrics d) = pre @ ?saved # post"
    by blast
  have "uploadMetrics F up M dat now d = (Inr ?saved, d\<lparr>metrics := pre @ ?saved # post\<rparr>)"
    using assms h(4) by (simp add: uploadMetrics_def Let_def)
  with h show ?thesis by blast
qed

lemma upload_new:
  assumes "FounderMetrics_findOne d F M = None" "monthFormat M" "validCounters dat"
  shows "uploadMetrics F up M dat now d =
           (Inr \<lparr>fm_founderId = F, uploadedBy = up, month = M,
                 totalPosts = d_totalPosts dat, totalImpressions = d_totalImpressions dat,
                 totalCommentOutreach = d_totalCommentOutreach dat,
                 fm_notes = d_notes dat, createdAt = now, updatedAt = now\<rparr>,
            d\<lparr>metrics := metrics d @
               [\<lparr>fm_founderId = F, uploadedBy = up, month = M,
                 totalPosts = d_totalPosts dat, totalImpressions = d_totalImpressions dat,
                 totalCommentOutreach = d_totalCommentOutreach dat,
                 fm_notes = d_notes dat, createdAt = now, updatedAt = now\<rparr>]\<rparr>)"
  using assms by (simp add: uploadMetrics_def Let_def)

text \<open>After a valid upload the key has one record more than before only if it had none.\<close>

lemma upload_records:
  assumes "monthFormat M" "validCounters dat"
  shows "\<exists>r rest. filter (\<lambda>x. fm_founderId x = F \<and> month x = M)
                     (metrics (snd (uploadMetrics F up M dat now d))) = r # rest \<and>
           totalPosts r = d_totalPosts dat \<and> uploadedBy r = up \<and>
           length rest = length (filter (\<lambda>x. fm_founderId x = F \<and> month x = M) (metrics d)) - 1"
proof (cases "FounderMetrics_findOne d F M")
  case None
  then have "filter (\<lambda>x. fm_founderId x = F \<and> month x = M) (metrics d) = []"
    by (simp add: FounderMetrics_findOne_def find_None_filter)
  then show ?thesis unfolding upload_new[OF None assms] by simp
next
  case (Some existing)
  from upload_existing[OF Some assms(2), of up now] obtain pre post where
    h: "metrics d = pre @ existing # post"
       "\<forall>x\<in>set pre. \<not> (fm_founderId x = F \<and> month x = M)"
       "fm_founderId existing = F \<and> month existing = M"
       "uploadMetrics F up M dat now d =
             (Inr (existing\<lparr>totalPosts := d_totalPosts dat,
                           totalImpressions := d_totalImpressions dat,
                           totalCommentOutreach := d_totalCommentOutreach dat,
                           fm_notes := d_notes dat, uploadedBy := up, updatedAt := now\<rparr>),
              d\<lparr>metrics := pre @ existing\<lparr>totalPosts := d_totalPosts dat,
                           totalImpressions := d_totalImpressions dat,
                           totalCommentOutreach := d_totalCommentOutreach dat,
                           fm_notes := d_notes dat, uploadedBy := up, updatedAt := now\<rparr> # post\<rparr>)"
    by blast
  have pre: "filter (\<lambda>x. fm_founderId x = F \<and> month x = M) pre = []"
    using h(2) by (simp add: filter_empty_conv)
  show ?thesis unfolding h(4) using h(1,3) pre by simp
qed

text \<open>
  Claim C4. \<open>uploadMetrics\<close> with valid counters: when a record for the founder and
  month exists, it is overwritten where it stands (counters, notes, uploader); when none
  exists and the month has the format, a record is appended. Two uploads in a row for a
  key that had at most one record leave exactly one record for it, which carries the
  counters and the uploader of the second upload.
\<close>

theorem upsertMonthly_last_write_wins:
  assumes "validCounters dat"
  shows "(\<forall>existing. FounderMetrics_findOne d F M = Some existing \<longrightarrow>
            (\<exists>pre post. metrics d = pre @ existing # post \<and>
               (\<forall>x\<in>set pre. \<not> (fm_founderId x = F \<and> month x = M)) \<and>
               uploadMetrics F up M dat now d =
                 (Inr (existing\<lparr>totalPosts := d_totalPosts dat,
                           totalImpressions := d_totalImpressions dat,
                           totalCommentOutreach := d_totalCommentOutreach dat,
                           fm_notes := d_notes dat, uploadedBy := up, updatedAt := now\<rparr>),
                  d\<lparr>metrics := pre @ existing\<lparr>totalPosts := d_totalPosts dat,
                           totalImpressions := d_totalImpressions dat,
                           totalCommentOutreach := d_totalCommentOutreach dat,
                           fm_notes := d_notes dat, uploadedBy := up, updatedAt := now\<rparr> # post\<rparr>))) \<and>
         (FounderMetrics_findOne d F M = None \<and> monthFormat M \<longrightarrow>
            uploadMetrics F up M dat now d =
              (Inr \<lparr>fm_founderId = F, uploadedBy = up, month = M,
                 totalPosts = d_totalPosts dat, totalImpressions = d_totalImpressions dat,
                 totalCommentOutreach = d_totalCommentOutreach dat,
                 fm_notes = d_notes dat, createdAt = now, updatedAt = now\<rparr>,
               d\<lparr>metrics := metrics d @
                 [\<lparr>fm_founderId = F, uploadedBy = up, month = M,
                   totalPosts = d_totalPosts dat, totalImpressions = d_totalImpressions dat,
                   totalCommentOutreach = d_totalCommentOutreach dat,
                   fm_notes = d_notes dat, createdAt = now, updatedAt = now\<rparr>]\<rparr>)) \<and>
         (\<forall>dat' up' now'.
            monthFormat M \<and> validCounters dat' \<and>
            length (filter (\<lambda>x. fm_founderId x = F \<and> month x = M) (metrics d)) \<le> 1 \<longrightarrow>
            (\<exists>r. filter (\<lambda>x. fm_founderId x = F \<and> month x = M)
                   (metrics (snd (uploadMetrics F up' M dat' now'
                      (snd (uploadMetrics F up M dat now d))))) = [r] \<and>
                 totalPosts r = d_totalPosts dat' \<and> uploadedBy r = up'))"
proof (intro conjI allI impI)
  fix existing assume "FounderMetrics_findOne d F M = Some existing"
  from upload_existing[OF this assms, of up now]
  show "\<exists>pre post. metrics d = pre @ existing # post \<and>
               (\<forall>x\<in>set pre. \<not> (fm_founderId x = F \<and> month x = M)) \<and>
               uploadMetrics F up M dat now d =
                 (Inr (existing\<lparr>totalPosts := d_totalPosts dat,
                           totalImpressions := d_totalImpressions dat,
                           totalCommentOutreach := d_totalCommentOutreach dat,
                           fm_notes := d_notes dat, uploadedBy := up, updatedAt := now\<rparr>),
                  d\<lparr>metrics := pre @ existing\<lparr>totalPosts := d_totalPosts dat,
                           totalImpressions := d_totalImpressions dat,
                           totalCommentOutreach := d_totalCommentOutreach dat,
                           fm_notes := d_notes dat, uploadedBy := up, updatedAt := now\<rparr> # post\<rparr>)"
    by blast
next
  assume "FounderMetrics_findOne d F M = None \<and> monthFormat M"
  then show "uploadMetrics F up M dat now d =
              (Inr \<lparr>fm_founderId = F, uploadedBy = up, month = M,
                 totalPosts = d_totalPosts dat, totalImpressions = d_totalImpressions dat,
                 totalCommentOutreach = d_totalCommentOutreach dat,
                 fm_notes = d_notes dat, createdAt = now, updatedAt = now\<rparr>,
               d\<lparr>metrics := metrics d @
                 [\<lparr>fm_founderId = F, uploadedBy = up, month = M,
                   totalPosts = d_totalPosts dat, totalImpressions = d_totalImpressions dat,
                   totalCommentOutreach = d_totalCommentOutreach dat,
                   fm_notes = d_notes dat, createdAt = now, updatedAt = now\<rparr>]\<rparr>)"
    using upload_new[of d F M dat up now] assms by simp
next
  fix dat' up' now'
  assume h: "monthFormat M \<and> validCounters dat' \<and>
            length (filter (\<lambda>x. fm_founderId x = F \<and> month x = M) (metrics d)) \<le> 1"
  define d1 where "d1 = snd (uploadMetrics F up M dat now d)"
  from upload_records[of M dat F up now d] h assms obtain r1 rest1 where
    one: "filter (\<lambda>x. fm_founderId x = F \<and> month x = M) (metrics d1) = r1 # rest1"
         "length rest1 = length (filter (\<lambda>x. fm_founderId x = F \<and> month x = M) (metrics d)) - 1"
    unfolding d1_def by blast
  with h have len1: "length (filter (\<lambda>x. fm_founderId x = F \<and> month x = M) (metrics d1)) = 1"
    by simp
  from upload_records[of M dat' F up' now' d1] h obtain r rest where
    two: "filter (\<lambda>x. fm_founderId x = F \<and> month x = M)
            (metrics (snd (uploadMetrics F up' M dat' now' d1))) = r # rest"
         "totalPosts r = d_totalPosts dat'" "uploadedBy r = up'"
         "length rest = length (filter (\<lambda>x. fm_founderId x = F \<and> month x = M) (metrics d1)) - 1"
    by blast
  from two(4) len1 have "rest = []" by simp
  with two show "\<exists>r. filter (\<lambda>x. fm_founderId x = F \<and> month x = M)
                   (metrics (snd (uploadMetrics F up' M dat' now'
                      (snd (uploadMetrics F up M dat now d))))) = [r] \<and>
                 totalPosts r = d_totalPosts dat' \<and> uploadedBy r = up'"
    unfolding d1_def by blast
qed

theorem upsertMonthly_last_write_wins_witness:
  "validCounters \<lparr>d_totalPosts = 5, d_totalImpressions = 10, d_totalCommentOutreach = 2, d_notes = None\<rparr> \<and>
   monthFormat ''2025-06'' \<and>
   (\<exists>r. filter (\<lambda>x. fm_founderId x = ''f1'' \<and> month x = ''2025-06'')
          (metrics (snd (uploadMetrics ''f1'' ''a1'' ''2025-06''
             \<lparr>d_totalPosts = 8, d_totalImpressions = 11, d_totalCommentOutreach = 3, d_notes = None\<rparr> 8
             (snd (uploadMetrics ''f1'' ''a3'' ''2025-06''
                \<lparr>d_totalPosts = 5, d_totalImpressions = 10, d_totalCommentOutreach = 2, d_notes = None\<rparr> 7
                sample_db))))) = [r] \<and>
        totalPosts r = 8 \<and> uploadedBy r = ''a1'')"
proof -
  let ?d5 = "\<lparr>d_totalPosts = 5, d_totalImpressions = 10, d_totalCommentOutreach = 2, d_notes = None\<rparr>"
  let ?d8 = "\<lparr>d_totalPosts = 8, d_totalImpressions = 11, d_totalCommentOutreach = 3, d_notes = None\<rparr>"
  have v5: "validCounters ?d5" and v8: "validCounters ?d8" by (simp_all add: validCounters_def)
  have m: "monthFormat ''2025-06''" by (simp add: monthFormat_def isDigit_def)
  have c: "length (filter (\<lambda>x. fm_founderId x = ''f1'' \<and> month x = ''2025-06'') (metrics sample_db)) \<le> 1"
    by (simp add: sample_db_def)
  from upsertMonthly_last_write_wins[OF v5, of sample_db "''f1''" "''2025-06''" "''a3''" 7] v8 m c
  have "\<exists>r. filter (\<lambda>x. fm_founderId x = ''f1'' \<and> month x = ''2025-06'')
          (metrics (snd (uploadMetrics ''f1'' ''a1'' ''2025-06'' ?d8 8
             (snd (uploadMetrics ''f1'' ''a3'' ''2025-06'' ?d5 7 sample_db))))) = [r] \<and>
        totalPosts r = d_totalPosts ?d8 \<and> uploadedBy r = ''a1''"
    by blast
  with v5 m show ?thesis by simp
qed

text \<open>
  Claim C7. The month check of the metrics upload accepts every string of four digits, a
  hyphen and two digits: \<open>2025-13\<close> passes the controller and the schema, and the record
  is stored, whereas the pattern of the report service rejects that string.
\<close>

theorem month_13_accepted:
  "monthFormat ''2025-13'' \<and> \<not> reportMonthFormat ''2025-13'' \<and>
   POST_founder_metrics ''s0'' SuperAdmin ''f2''
     \<lparr>b_month = Some ''2025-13'', b_totalPosts = Some 1, b_totalImpressions = Some 2,
      b_totalCommentOutreach = Some 3, b_notes = None\<rparr> 9 sample_db =
   (Inr \<lparr>fm_founderId = ''f2'', uploadedBy = ''s0'', month = ''2025-13'',
         totalPosts = 1, totalImpressions = 2, totalCommentOutreach = 3,
         fm_notes = None, createdAt = 9, updatedAt = 9\<rparr>,
    sample_db\<lparr>metrics := metrics sample_db @
      [\<lparr>fm_founderId = ''f2'', uploadedBy = ''s0'', month = ''2025-13'',
         totalPosts = 1, totalImpressions = 2, totalCommentOutreach = 3,
         fm_notes = None, createdAt = 9, updatedAt = 9\<rparr>]\<rparr>)"
proof -
  have m: "monthFormat ''2025-13''" by (simp add: monthFormat_def isDigit_def)
  have r: "\<not> reportMonthFormat ''2025-13''" by (simp add: reportMonthFormat_def isDigit_def)
  have f: "FounderMetrics_findOne sample_db ''f2'' ''2025-13'' = None"
    by (simp add: FounderMetrics_findOne_def sample_db_def)
  have "POST_founder_metrics ''s0'' SuperAdmin ''f2''
     \<lparr>b_month = Some ''2025-13'', b_totalPosts = Some 1, b_totalImpressions = Some 2,
      b_totalCommentOutreach = Some 3, b_notes = None\<rparr> 9 sample_db =
   (Inr \<lparr>fm_founderId = ''f2'', uploadedBy = ''s0'', month = ''2025-13'',
         totalPosts = 1, totalImpressions = 2, totalCommentOutreach = 3,
         fm_notes = None, createdAt = 9, updatedAt = 9\<rparr>,
    sample_db\<lparr>metrics := metrics sample_db @
      [\<lparr>fm_founderId = ''f2'', uploadedBy = ''s0'', month = ''2025-13'',
         totalPosts = 1, totalImpressions = 2, totalCommentOutreach = 3,
         fm_notes = None, createdAt = 9, updatedAt = 9\<rparr>]\<rparr>)"
    using m f
    by (simp add: POST_founder_metrics_def authorize_def metricsController_uploadMetrics_def
          uploadMetrics_def validCounters_def Let_def)
  with m r show ?thesis by simp
qed

theorem month_13_accepted_witness:
  "\<exists>stored d'. POST_founder_metrics ''s0'' SuperAdmin ''f2''
       \<lparr>b_month = Some ''2025-13'', b_totalPosts = Some 1, b_totalImpressions = Some 2,
        b_totalCommentOutreach = Some 3, b_notes = None\<rparr> 9 sample_db = (Inr stored, d') \<and>
     month stored = ''2025-13'' \<and> stored \<in> set (metrics d') \<and>
     \<not> reportMonthFormat (month stored)"
  using month_13_accepted by simp

section \<open>Proofs: double arithmetic\<close>

text \<open>Powers of two with an integer exponent.\<close>

lemma powi2_pos [simp]: "0 < (2::rat) powi k"
  by (simp add: power_int_def)

lemma powi2_le_iff: "(2::rat) powi a \<le> 2 powi b \<longleftrightarrow> a \<le> b"
  by (metis power_int_increasing power_int_strict_increasing linorder_not_le one_less_numeral_iff
      semiring_norm(76) one_le_numeral)

lemma powi2_less_iff: "(2::rat) powi a < 2 powi b \<longleftrightarrow> a < b"
  using powi2_le_iff[of b a] by (auto simp: not_le[symmetric])

lemma powi2_shift: "(2::rat) powi (e - 52) * 2 ^ 53 = 2 powi (e + 1)"
proof -
  have "(2::rat) powi ((e - 52) + 53) = 2 powi (e - 52) * 2 powi 53"
    by (rule power_int_add) simp
  moreover have "(e - 52) + 53 = e + 1" by simp
  ultimately show ?thesis by simp
qed

lemma powi2_half: "1 / 2 * (2::rat) powi (e - 52) = 2 powi e / 2 ^ 53"
proof -
  have "(2::rat) powi (e - 53) = 2 powi e / 2 powi 53"
    by (rule power_int_diff) simp
  moreover have "(2::rat) powi ((e - 53) + 1) = 2 powi (e - 53) * 2 powi 1"
    by (rule power_int_add) simp
  moreover have "(e - 53) + 1 = e - 52" by simp
  ultimately show ?thesis by simp
qed

text \<open>The exponent of a positive rational brackets it between two powers of two.\<close>

lemma exponent_bounds:
  assumes "0 < x"
  shows "2 powi (exponent x) \<le> x \<and> x < 2 powi (exponent x + 1)"
proof (cases "1 \<le> x")
  case True
  then have fx: "0 < \<lfloor>x\<rfloor>" by simp
  from bitlen_bounds[OF fx] have b: "2 ^ nat (bitlen \<lfloor>x\<rfloor> - 1) \<le> \<lfloor>x\<rfloor>" "\<lfloor>x\<rfloor> < 2 ^ nat (bitlen \<lfloor>x\<rfloor>)"
    by auto
  have ge1: "1 \<le> bitlen \<lfloor>x\<rfloor>" using fx by (auto simp: bitlen_alt_def)
  have e: "exponent x = bitlen \<lfloor>x\<rfloor> - 1" using True by (simp add: exponent_def)
  have lo: "(2::rat) powi (bitlen \<lfloor>x\<rfloor> - 1) \<le> x"
  proof -
    have "(2::rat) powi (bitlen \<lfloor>x\<rfloor> - 1) = of_int (2 ^ nat (bitlen \<lfloor>x\<rfloor> - 1))"
      using ge1 by (simp add: power_int_def)
    also have "\<dots> \<le> of_int \<lfloor>x\<rfloor>" using b(1) by (simp only: of_int_le_iff)
    also have "\<dots> \<le> x" by simp
    finally show ?thesis .
  qed
  have hi: "x < (2::rat) powi (bitlen \<lfloor>x\<rfloor>)"
  proof -
    from b(2) have "\<lfloor>x\<rfloor> + 1 \<le> 2 ^ nat (bitlen \<lfloor>x\<rfloor>)" by simp
    then have "of_int (\<lfloor>x\<rfloor> + 1) \<le> (of_int (2 ^ nat (bitlen \<lfloor>x\<rfloor>)) :: rat)"
      by (simp only: of_int_le_iff)
    moreover have "x < of_int (\<lfloor>x\<rfloor> + 1)" by linarith
    ultimately have "x < (of_int (2 ^ nat (bitlen \<lfloor>x\<rfloor>)) :: rat)" by simp
    then show ?thesis using ge1 by (simp add: power_int_def)
  qed
  from lo hi e show ?thesis by simp
next
  case False
  then have x1: "x < 1" by simp
  define r where "r = \<lceil>1 / x\<rceil>"
  have inv: "1 < 1 / x" using assms x1 by simp
  then have r2: "2 \<le> r" unfolding r_def by (simp add: le_ceiling_iff) 
  then have rp: "0 < r - 1" by simp
  define k where "k = bitlen (r - 1)"
  from bitlen_bounds[OF rp] have b: "2 ^ nat (k - 1) \<le> r - 1" "r - 1 < 2 ^ nat k"
    by (auto simp: k_def)
  have k1: "1 \<le> k" using rp by (auto simp: k_def bitlen_alt_def)
  have e: "exponent x = - k" using False by (simp add: exponent_def k_def r_def)
  have up: "1 / x \<le> 2 ^ nat k"
  proof -
    have "1 / x \<le> of_int r" unfolding r_def by simp
    also from b(2) have "r \<le> 2 ^ nat k" by simp
    then have "(of_int r :: rat) \<le> of_int (2 ^ nat k)" by (simp only: of_int_le_iff)
    finally show ?thesis by simp
  qed
  have dn: "2 ^ nat (k - 1) < 1 / x"
  proof -
    have "(of_int (2 ^ nat (k - 1)) :: rat) \<le> of_int (r - 1)" using b(1) by (simp only: of_int_le_iff)
    also have "(of_int (r - 1) :: rat) < 1 / x" unfolding r_def
      using ceiling_correct[of "1 / x"] by simp
    finally show ?thesis by simp
  qed
  have lo: "(2::rat) powi (- k) \<le> x"
  proof -
    from up assms have "1 \<le> x * 2 ^ nat k" by (simp add: field_simps)
    then have "1 / 2 ^ nat k \<le> x" by (simp add: field_simps)
    then show ?thesis using k1 by (simp add: power_int_def field_simps)
  qed
  have hi: "x < (2::rat) powi (- k + 1)"
  proof -
    from dn assms have "x * 2 ^ nat (k - 1) < 1" by (simp add: field_simps)
    then have "x < 1 / 2 ^ nat (k - 1)" by (simp add: field_simps)
    moreover have "(2::rat) powi (- k + 1) = 1 / 2 ^ nat (k - 1)"
    proof (cases "k = 1")
      case True then show ?thesis by simp
    next
      case False
      with k1 have "- k + 1 < 0" by simp
      moreover have "nat (- (- k + 1)) = nat (k - 1)" by simp
      ultimately show ?thesis by (simp add: power_int_def field_simps)
    qed
    ultimately show ?thesis by simp
  qed
  from lo hi e show ?thesis by simp
qed

lemma exponent_unique:
  assumes "0 < x" "2 powi e \<le> x" "x < 2 powi (e + 1)"
  shows "exponent x = e"
proof -
  from exponent_bounds[OF assms(1)] have b: "2 powi (exponent x) \<le> x" "x < 2 powi (exponent x + 1)"
    by auto
  from b(1) assms(3) have "(2::rat) powi (exponent x) < 2 powi (e + 1)" by simp
  then have "exponent x < e + 1" by (simp add: powi2_less_iff)
  moreover from assms(2) b(2) have "(2::rat) powi e < 2 powi (exponent x + 1)" by simp
  then have "e < exponent x + 1" by (simp add: powi2_less_iff)
  ultimately show ?thesis by simp
qed

lemma round_even_near: "\<bar>of_int (round_even t) - t\<bar> \<le> 1 / 2"
proof -
  have "of_int \<lfloor>t\<rfloor> \<le> t" "t < of_int \<lfloor>t\<rfloor> + 1" by linarith+
  then show ?thesis unfolding round_even_def Let_def by (auto simp: abs_if; linarith)
qed

lemma round_even_unique:
  assumes "\<bar>t - of_int m\<bar> < 1 / 2"
  shows "round_even t = m"
proof -
  from round_even_near[of t] assms have "\<bar>(of_int (round_even t) :: rat) - of_int m\<bar> < 1" by linarith
  then have "\<bar>of_int (round_even t - m) :: rat\<bar> < 1" by simp
  then have "\<bar>round_even t - m\<bar> < 1" by (metis of_int_abs of_int_less_1_iff)
  then show ?thesis by simp
qed


text \<open>
  Rounding a normal number: with the exponent and the nearest mantissa at hand the double
  is determined; its relative error is at most \<open>2 ^ - 53\<close>; an integer below \<open>2 ^ 53\<close> is
  a double.
\<close>

lemma to_double_eval:
  assumes "x \<noteq> 0" "2 powi e \<le> \<bar>x\<bar>" "\<bar>x\<bar> < 2 powi (e + 1)" "- 1022 \<le> e" "e \<le> 1022"
    and "\<bar>x / 2 powi (e - 52) - of_int m\<bar> < 1 / 2"
  shows "to_double x = Finite (of_int m * 2 powi (e - 52))"
proof -
  have pos: "0 < \<bar>x\<bar>" using assms(1) by simp
  have ex: "exponent \<bar>x\<bar> = e" by (rule exponent_unique[OF pos assms(2,3)])
  have mx: "max (exponent \<bar>x\<bar>) (- 1022) = e" using ex assms(4) by simp
  have re: "round_even (x / 2 powi (e - 52)) = m" by (rule round_even_unique[OF assms(6)])
  define ulp :: rat where "ulp = 2 powi (e - 52)"
  have ulp_pos: "0 < ulp" by (simp add: ulp_def)
  have scaled: "\<bar>x / ulp\<bar> < 2 ^ 53"
  proof -
    from assms(3) have "\<bar>x\<bar> < ulp * 2 ^ 53"
      unfolding ulp_def powi2_shift[symmetric] by (simp add: mult.commute)
    then have "\<bar>x\<bar> / ulp < 2 ^ 53" using ulp_pos by (simp add: field_simps)
    then show ?thesis using ulp_pos by simp
  qed
  have "\<bar>of_int m :: rat\<bar> \<le> \<bar>x / ulp\<bar> + \<bar>x / ulp - of_int m\<bar>"
    by linarith
  with assms(6) scaled have "\<bar>of_int m :: rat\<bar> < 2 ^ 53 + 1 / 2" by (simp add: ulp_def)
  then have "\<bar>of_int m :: rat\<bar> < of_int (2 ^ 53 + 1)" by simp
  then have "\<bar>m\<bar> < 2 ^ 53 + 1" by (metis of_int_abs of_int_less_iff)
  then have "\<bar>m\<bar> \<le> 2 ^ 53" by simp
  then have "\<bar>of_int m :: rat\<bar> \<le> of_int (2 ^ 53)" by (metis of_int_abs of_int_le_iff)
  then have mb: "\<bar>of_int m :: rat\<bar> \<le> 2 ^ 53" by simp
  have "\<bar>of_int m * ulp\<bar> \<le> 2 ^ 53 * ulp"
    using mb ulp_pos by (simp add: abs_mult)
  also have "2 ^ 53 * ulp = 2 powi (e + 1)"
    unfolding ulp_def powi2_shift[symmetric] by (simp add: mult.commute)
  also have "\<dots> < 2 powi 1024" using assms(5) by (simp only: powi2_less_iff; simp)
  finally have fin: "\<bar>of_int m * ulp\<bar> < 2 powi 1024" .
  then have "\<not> 2 powi 1024 \<le> of_int m * ulp" "\<not> of_int m * ulp \<le> - (2 powi 1024)"
    by linarith+
  then show ?thesis
    using assms(1) mx re unfolding to_double_def Let_def ulp_def by simp
qed

lemma to_double_error:
  assumes "x = 0 \<or> 2 powi (- 1022) \<le> \<bar>x\<bar>" "\<bar>x\<bar> < 2 powi 1023"
  shows "\<exists>y. to_double x = Finite y \<and> \<bar>y - x\<bar> \<le> \<bar>x\<bar> / 2 ^ 53"
proof (cases "x = 0")
  case True
  then show ?thesis by (simp add: to_double_def)
next
  case False
  then have pos: "0 < \<bar>x\<bar>" by simp
  define e where "e = exponent \<bar>x\<bar>"
  from exponent_bounds[OF pos] have b: "2 powi e \<le> \<bar>x\<bar>" "\<bar>x\<bar> < 2 powi (e + 1)"
    by (auto simp: e_def)
  from assms(1) False b(2) have "(2::rat) powi (- 1022) < 2 powi (e + 1)" by linarith
  then have lo: "- 1022 \<le> e" by (simp only: powi2_less_iff; simp)
  from b(1) assms(2) have "(2::rat) powi e < 2 powi 1023" by linarith
  then have hi: "e \<le> 1022" by (simp only: powi2_less_iff; simp)
  define ulp :: rat where "ulp = 2 powi (e - 52)"
  have ulp_pos: "0 < ulp" by (simp add: ulp_def)
  define m where "m = round_even (x / ulp)"
  define y where "y = of_int m * ulp"
  have near: "\<bar>of_int m - x / ulp\<bar> \<le> 1 / 2" unfolding m_def by (rule round_even_near)
  have "y - x = (of_int m - x / ulp) * ulp" using ulp_pos by (simp add: y_def field_simps)
  then have "\<bar>y - x\<bar> = \<bar>of_int m - x / ulp\<bar> * ulp" using ulp_pos by (simp add: abs_mult)
  also have "\<dots> \<le> 1 / 2 * ulp" using near ulp_pos by (simp add: mult_right_mono)
  also have "1 / 2 * ulp = 2 powi e / 2 ^ 53"
    unfolding ulp_def by (rule powi2_half)
  also have "\<dots> \<le> \<bar>x\<bar> / 2 ^ 53" using b(1) by (simp add: divide_right_mono)
  finally have err: "\<bar>y - x\<bar> \<le> \<bar>x\<bar> / 2 ^ 53" .
  have "\<bar>y\<bar> \<le> \<bar>x\<bar> + \<bar>y - x\<bar>" by linarith
  also have "\<dots> \<le> \<bar>x\<bar> + \<bar>x\<bar> / 2 ^ 53" using err by simp
  also have "\<dots> \<le> \<bar>x\<bar> * 2" by simp
  also have "\<dots> < 2 powi 1023 * 2" using assms(2) by simp
  also have "(2::rat) powi 1023 * 2 = 2 powi 1024"
    using power_int_add[of "2::rat" 1023 1] by simp
  finally have "\<bar>y\<bar> < 2 powi 1024" .
  then have "\<not> 2 powi 1024 \<le> y" "\<not> y \<le> - (2 powi 1024)" by linarith+
  moreover have "max (exponent \<bar>x\<bar>) (- 1022) = e" using lo by (simp add: e_def)
  ultimately have "to_double x = Finite y"
    using False unfolding to_double_def Let_def y_def m_def ulp_def by simp
  with err show ?thesis by blast
qed

lemma to_double_int:
  assumes "\<bar>n\<bar> < 2 ^ 53"
  shows "to_double (of_int n) = Finite (of_int n)"
proof (cases "n = 0")
  case True
  then show ?thesis by (simp add: to_double_def)
next
  case False
  define x :: rat where "x = of_int n"
  have x0: "x \<noteq> 0" using False by (simp add: x_def)
  have pos: "0 < \<bar>x\<bar>" using x0 by simp
  define e where "e = exponent \<bar>x\<bar>"
  from exponent_bounds[OF pos] have b: "2 powi e \<le> \<bar>x\<bar>" "\<bar>x\<bar> < 2 powi (e + 1)"
    by (auto simp: e_def)
  have x1: "1 \<le> \<bar>x\<bar>" using False unfolding x_def by (metis of_int_abs of_int_1_le_iff zero_less_abs_iff int_one_le_iff_zero_less)
  have xb: "\<bar>x\<bar> < 2 powi 53"
  proof -
    from assms have "(of_int \<bar>n\<bar> :: rat) < of_int (2 ^ 53)" by (simp only: of_int_less_iff)
    then show ?thesis by (simp add: x_def)
  qed
  from x1 b(2) have "(2::rat) powi 0 < 2 powi (e + 1)" by simp
  then have e0: "0 \<le> e" by (simp only: powi2_less_iff; simp)
  from b(1) xb have "(2::rat) powi e < 2 powi 53" by linarith
  then have e52: "e \<le> 52" by (simp only: powi2_less_iff; simp)
  define m where "m = n * 2 ^ nat (52 - e)"
  have ulp: "(2::rat) powi (e - 52) = 1 / 2 ^ nat (52 - e)"
    using e52 by (cases "e = 52") (simp_all add: power_int_def field_simps)
  have scaled: "x / 2 powi (e - 52) = of_int m"
    unfolding ulp m_def x_def by simp
  have unscaled: "of_int m * 2 powi (e - 52) = x"
    unfolding ulp m_def x_def by simp
  have lo: "- 1022 \<le> e" and hi: "e \<le> 1022" using e0 e52 by simp_all
  have near: "\<bar>x / 2 powi (e - 52) - of_int m\<bar> < 1 / 2" unfolding scaled by simp
  have "to_double x = Finite (of_int m * 2 powi (e - 52))"
    by (rule to_double_eval[OF x0 b lo hi near])
  then show ?thesis unfolding unscaled x_def .
qed


lemma floor_rat_numeral_div: "\<lfloor>numeral a / numeral b :: rat\<rfloor> = numeral a div numeral b"
  by (metis floor_divide_of_int_eq of_int_numeral)

lemma Math_round_Finite: "Math_round (Finite x) = Finite (of_int (round x))"
  by (simp add: round_def)

text \<open>
  The percentage of two integers that doubles hold exactly: the two roundings, of the
  quotient and of its product with 100, move the result by at most \<open>\<bar>x\<bar> / 2 ^ 51\<close> from
  the exact percentage \<open>x\<close>.
\<close>

lemma percentage_value:
  assumes i: "\<bar>i\<bar> < 2 ^ 53" and j: "0 < j" "j < 2 ^ 53"
  shows "\<exists>y::rat. percentage (of_int i) (of_int j) = Finite (of_int (round y)) \<and>
           \<bar>y - of_int i / of_int j * 100\<bar> \<le> \<bar>of_int i / of_int j * 100\<bar> / 2 ^ 51"
proof (cases "i = 0")
  case True
  have "percentage (of_int i) (of_int j) = Finite (of_int (round (0::rat)))"
    using True j by (simp add: percentage_def to_double_def Math_round_Finite del: Math_round.simps)
  with True show ?thesis by (intro exI[of _ 0]) simp
next
  case False
  define q :: rat where "q = of_int i / of_int j"
  have jr: "(0::rat) < of_int j" using j by simp
  have q0: "q \<noteq> 0" using False j by (simp add: q_def)
  have ia: "1 \<le> \<bar>of_int i :: rat\<bar>"
    using False by (metis of_int_abs of_int_1_le_iff zero_less_abs_iff int_one_le_iff_zero_less)
  have ib: "\<bar>of_int i :: rat\<bar> < 2 ^ 53"
  proof -
    from i have "(of_int \<bar>i\<bar> :: rat) < of_int (2 ^ 53)" by (simp only: of_int_less_iff)
    then show ?thesis by simp
  qed
  have jb: "(of_int j :: rat) < 2 ^ 53"
  proof -
    from j have "(of_int j :: rat) < of_int (2 ^ 53)" by (simp only: of_int_less_iff)
    then show ?thesis by simp
  qed
  have j1: "(1::rat) \<le> of_int j" using j by simp
  have qabs: "\<bar>q\<bar> = \<bar>of_int i\<bar> / of_int j" using jr by (simp add: q_def)
  have qlo: "1 / 2 ^ 53 \<le> \<bar>q\<bar>"
  proof -
    have "1 / 2 ^ 53 \<le> 1 / (of_int j :: rat)" using jb jr by (simp add: field_simps)
    also have "\<dots> \<le> \<bar>of_int i\<bar> / of_int j" using ia jr by (simp add: divide_right_mono)
    finally show ?thesis unfolding qabs .
  qed
  have qhi: "\<bar>q\<bar> < 2 ^ 53"
  proof -
    have "\<bar>of_int i :: rat\<bar> / of_int j \<le> \<bar>of_int i\<bar> / 1" using j1 by (intro divide_left_mono) simp_all
    with ib show ?thesis unfolding qabs by simp
  qed
  have small: "(2::rat) powi (- 1022) \<le> 1 / 2 ^ 54"
  proof -
    have "(2::rat) powi (- 1022) \<le> 2 powi (- 54)" by (simp only: powi2_le_iff; simp)
    then show ?thesis by (simp add: power_int_minus_divide)
  qed
  have big: "(2::rat) ^ 61 < 2 powi 1023"
  proof -
    have "(2::rat) powi 61 < 2 powi 1023" by (simp only: powi2_less_iff; simp)
    then show ?thesis by simp
  qed
  have r1: "q = 0 \<or> 2 powi (- 1022) \<le> \<bar>q\<bar>"
  proof -
    note small
    also have "(1::rat) / 2 ^ 54 \<le> 1 / 2 ^ 53" by simp
    also note qlo
    finally show ?thesis by simp
  qed
  have r2: "\<bar>q\<bar> < 2 powi 1023"
  proof -
    note qhi
    also have "(2::rat) ^ 53 \<le> 2 ^ 61" by simp
    also note big
    finally show ?thesis .
  qed
  from to_double_error[OF r1 r2] obtain y1 where
    y1: "to_double q = Finite y1" "\<bar>y1 - q\<bar> \<le> \<bar>q\<bar> / 2 ^ 53" by blast
  have y1lo: "\<bar>q\<bar> / 2 \<le> \<bar>y1\<bar>"
  proof -
    have "\<bar>q\<bar> / 2 ^ 53 \<le> \<bar>q\<bar> / 2" by (intro divide_left_mono) simp_all
    with y1(2) show ?thesis by linarith
  qed
  have y1hi: "\<bar>y1\<bar> \<le> 2 * \<bar>q\<bar>"
  proof -
    have "\<bar>q\<bar> / 2 ^ 53 \<le> \<bar>q\<bar>" by (simp add: field_simps)
    with y1(2) show ?thesis by linarith
  qed
  have s1: "y1 * 100 = 0 \<or> 2 powi (- 1022) \<le> \<bar>y1 * 100\<bar>"
  proof -
    have "1 / 2 ^ 54 \<le> \<bar>q\<bar> / 2" using qlo by simp
    also have "\<dots> \<le> \<bar>y1\<bar>" by (rule y1lo)
    also have "\<dots> \<le> \<bar>y1 * 100\<bar>" by (simp add: abs_mult)
    finally have "1 / 2 ^ 54 \<le> \<bar>y1 * 100\<bar>" .
    with small have "2 powi (- 1022) \<le> \<bar>y1 * 100\<bar>" by (rule order_trans)
    then show ?thesis by simp
  qed
  have s2: "\<bar>y1 * 100\<bar> < 2 powi 1023"
  proof -
    have "\<bar>y1 * 100\<bar> = \<bar>y1\<bar> * 100" by (simp add: abs_mult)
    also have "\<dots> \<le> 2 * \<bar>q\<bar> * 100" using y1hi by simp
    also have "\<dots> < 2 * 2 ^ 53 * 100" using qhi by simp
    also have "\<dots> < (2::rat) ^ 61" by simp
    also note big
    finally show ?thesis .
  qed
  from to_double_error[OF s1 s2] obtain y2 where
    y2: "to_double (y1 * 100) = Finite y2" "\<bar>y2 - y1 * 100\<bar> \<le> \<bar>y1 * 100\<bar> / 2 ^ 53" by blast
  have val: "percentage (of_int i) (of_int j) = Finite (of_int (round y2))"
    using j y1(1) y2(1) by (simp add: percentage_def q_def Math_round_Finite del: Math_round.simps)
  have "\<bar>y2 - q * 100\<bar> \<le> \<bar>y2 - y1 * 100\<bar> + \<bar>y1 - q\<bar> * 100" by (simp add: abs_if split: if_splits; linarith)
  also have "\<dots> \<le> \<bar>y1 * 100\<bar> / 2 ^ 53 + \<bar>q\<bar> / 2 ^ 53 * 100"
    using y2(2) y1(2) by (intro add_mono mult_right_mono) simp_all
  also have "\<dots> \<le> (2 * \<bar>q\<bar> * 100) / 2 ^ 53 + \<bar>q\<bar> / 2 ^ 53 * 100"
    using y1hi by (intro add_mono divide_right_mono) (simp_all add: abs_mult)
  also have "\<dots> \<le> \<bar>q * 100\<bar> / 2 ^ 51" by (simp add: abs_mult field_simps)
  finally have "\<bar>y2 - q * 100\<bar> \<le> \<bar>q * 100\<bar> / 2 ^ 51" .
  with val show ?thesis unfolding q_def by blast
qed


lemma percentage_near:
  assumes "\<bar>i\<bar> < 2 ^ 53" "0 < j" "j < 2 ^ 53"
  shows "\<exists>g. percentage (of_int i) (of_int j) = Finite (of_int g) \<and>
           round (of_int i / of_int j * 100 - \<bar>of_int i / of_int j * 100\<bar> / 2 ^ 51 :: rat) \<le> g \<and>
           g \<le> round (of_int i / of_int j * 100 + \<bar>of_int i / of_int j * 100\<bar> / 2 ^ 51 :: rat)"
proof -
  from percentage_value[OF assms] obtain y :: rat where
    y: "percentage (of_int i) (of_int j) = Finite (of_int (round y))"
       "\<bar>y - of_int i / of_int j * 100\<bar> \<le> \<bar>of_int i / of_int j * 100\<bar> / 2 ^ 51" by blast
  from y(2) have "of_int i / of_int j * 100 - \<bar>of_int i / of_int j * 100\<bar> / 2 ^ 51 \<le> y"
    "y \<le> of_int i / of_int j * 100 + \<bar>of_int i / of_int j * 100\<bar> / 2 ^ 51" by linarith+
  then have "round (of_int i / of_int j * 100 - \<bar>of_int i / of_int j * 100\<bar> / 2 ^ 51 :: rat) \<le> round y"
    "round y \<le> round (of_int i / of_int j * 100 + \<bar>of_int i / of_int j * 100\<bar> / 2 ^ 51 :: rat)"
    by (auto intro: round_mono)
  with y(1) show ?thesis by blast
qed

lemma growth_percentage:
  assumes "0 < p" "p < 2 ^ 53" "0 \<le> c" "c < 2 ^ 53"
  shows "growth c p = percentage (of_int (c - p)) (of_int p)"
proof -
  have "\<bar>c - p\<bar> < 2 ^ 53" using assms by simp
  from to_double_int[OF this] have "js_minus (of_int c) (of_int p) = Finite (of_int (c - p))"
    by (simp add: js_minus_def)
  with assms(1) show ?thesis by (simp add: growth_def percentage_def)
qed

lemma to_double_not_NaN [simp]: "to_double x \<noteq> NaN"
  by (simp add: to_double_def Let_def)

lemma growth_not_NaN: "growth c p \<noteq> NaN"
proof (cases "0 < p")
  case False
  then show ?thesis by (simp add: growth_def)
next
  case True
  define n1 where "n1 = js_minus (of_int c) (of_int p)"
  have a: "n1 \<noteq> NaN" by (simp add: n1_def js_minus_def)
  define n2 where "n2 = js_divide n1 (of_int p)"
  have b: "n2 \<noteq> NaN" using a True unfolding n2_def by (cases n1) simp_all
  define n3 where "n3 = js_times n2 100"
  have c: "n3 \<noteq> NaN" using b unfolding n3_def by (cases n2) simp_all
  have "Math_round n3 \<noteq> NaN" using c by (cases n3) simp_all
  then show ?thesis using True by (simp add: growth_def n1_def n2_def n3_def)
qed

lemma greater_Math_max:
  "x \<noteq> NaN \<Longrightarrow> y \<noteq> NaN \<Longrightarrow> js_greater (Math_max x y) k = (js_greater x k \<or> js_greater y k)"
  by (cases x; cases y) auto

lemma set_insert_desc [simp]: "set (insert_desc key x ys) = insert x (set ys)"
  by (induction ys) auto

lemma set_sort_desc [simp]: "set (sort_desc key xs) = set xs"
  by (induction xs) (simp_all add: sort_desc_def)

lemma highlight_growth:
  assumes "h \<in> set (performanceHighlight d cm pm fid)"
  shows "\<exists>cur prev. FounderMetrics_findOne d fid cm = Some cur \<and>
           FounderMetrics_findOne d fid pm = Some prev \<and>
           impressionsGrowth h = growth (totalImpressions cur) (totalImpressions prev) \<and>
           engagementGrowth h = growth (totalCommentOutreach cur) (totalCommentOutreach prev) \<and>
           js_greater (Math_max (impressionsGrowth h) (engagementGrowth h)) 20"
proof (cases "FounderMetrics_findOne d fid cm")
  case None
  with assms show ?thesis by (simp add: performanceHighlight_def)
next
  case cur: (Some cur)
  show ?thesis
  proof (cases "FounderMetrics_findOne d fid pm")
    case None
    with assms cur show ?thesis by (simp add: performanceHighlight_def)
  next
    case prev: (Some prev)
    from assms cur prev have
      h: "impressionsGrowth h = growth (totalImpressions cur) (totalImpressions prev)"
         "engagementGrowth h = growth (totalCommentOutreach cur) (totalCommentOutreach prev)"
         "js_greater (impressionsGrowth h) 20 \<or> js_greater (engagementGrowth h) 20"
      by (auto simp: performanceHighlight_def Let_def split: if_splits)
    have "js_greater (Math_max (impressionsGrowth h) (engagementGrowth h)) 20"
      using h(3) greater_Math_max[of "impressionsGrowth h" "engagementGrowth h" 20]
      unfolding h(1,2) by (simp add: growth_not_NaN)
    with cur prev h show ?thesis by blast
  qed
qed

text \<open>
  Twenty-three of forty: the quotient rounds to a double below 0.575 and its product with
  100 to a double below 57.5.
\<close>

lemma percentage_23_40: "percentage 23 40 = Finite 57"
proof -
  have q: "to_double (23 / 40) = Finite (2589569785738035 / 4503599627370496)"
    using to_double_eval[of "23 / 40" "-1" 5179139571476070] by simp
  have y: "to_double (2589569785738035 / 4503599627370496 * 100) =
             Finite (8092405580431359 / 140737488355328)"
    using to_double_eval[of "2589569785738035 / 4503599627370496 * 100" 5 8092405580431359] by simp
  show ?thesis using q y by (simp add: percentage_def floor_rat_numeral_div)
qed

lemma percentage_201_200: "percentage 201 200 = Finite 100"
proof -
  have q: "to_double (201 / 200) = Finite (1131529406376837 / 1125899906842624)"
    using to_double_eval[of "201 / 200" 0 4526117625507348] by simp
  have y: "to_double (1131529406376837 / 1125899906842624 * 100) =
             Finite (7072058789855231 / 70368744177664)"
    using to_double_eval[of "1131529406376837 / 1125899906842624 * 100" 6 7072058789855231] by simp
  show ?thesis using q y by (simp add: percentage_def floor_rat_numeral_div)
qed

text \<open>
  The exact percentage is a multiple of \<open>1 / j\<close>, so with a small numerator the rounding
  errors can move it across a half only when it lies on one.
\<close>

lemma percentage_sharp:
  fixes i j :: int
  defines "x \<equiv> (of_int i / of_int j * 100 :: rat)"
  assumes i: "\<bar>i\<bar> < 2 ^ 43" and j: "0 < j" "j < 2 ^ 53"
  shows "\<exists>g. percentage (of_int i) (of_int j) = Finite (of_int g) \<and>
           round (x - \<bar>x\<bar> / 2 ^ 51) \<le> g \<and> g \<le> round (x + \<bar>x\<bar> / 2 ^ 51) \<and>
           round x - 1 \<le> g \<and> g \<le> round x \<and>
           (x + 1 / 2 \<noteq> of_int (round x) \<longrightarrow> g = round x)"
proof -
  have i53: "\<bar>i\<bar> < 2 ^ 53" using i by simp
  from percentage_near[OF i53 j] obtain g where
    g: "percentage (of_int i) (of_int j) = Finite (of_int g)"
       "round (x - \<bar>x\<bar> / 2 ^ 51) \<le> g" "g \<le> round (x + \<bar>x\<bar> / 2 ^ 51)"
    unfolding x_def by blast
  define s where "s = \<bar>x\<bar> / 2 ^ 51"
  define k where "k = round x"
  define t where "t = x + 1 / 2 - of_int k"
  define N where "N = 200 * i + j - 2 * j * k"
  have jr: "(0::rat) < of_int j" using j by simp
  have t0: "0 \<le> t" and t1: "t < 1"
    unfolding t_def k_def round_def by linarith+
  have N: "of_int N = 2 * of_int j * t"
    using jr by (simp add: N_def t_def x_def field_simps)
  have "(0::rat) \<le> of_int N" unfolding N using jr t0 by simp
  then have N0: "0 \<le> N" by simp
  have "of_int N < (of_int (2 * j) :: rat)" unfolding N using jr t1 by simp
  then have N1: "N < 2 * j" by (simp only: of_int_less_iff)
  have s0: "0 \<le> s" by (simp add: s_def)
  have "\<bar>x\<bar> = of_int \<bar>i\<bar> * 100 / of_int j"
    using jr by (simp add: x_def abs_mult abs_divide)
  moreover have "(of_int \<bar>i\<bar> :: rat) \<le> of_int (2 ^ 43 - 1)" using i by (simp only: of_int_le_iff; simp)
  ultimately have "\<bar>x\<bar> \<le> of_int (2 ^ 43 - 1) * 100 / of_int j"
    using jr by (simp add: divide_right_mono)
  then have "s \<le> of_int (2 ^ 43 - 1) * 100 / of_int j / 2 ^ 51"
    unfolding s_def by (simp add: divide_right_mono)
  also have "\<dots> < 1 / (2 * of_int j)" using jr by (simp add: field_simps)
  finally have s1: "2 * of_int j * s < 1" using jr by (simp add: field_simps)
  have up: "round (x + s) \<le> k"
  proof -
    have "of_int (N + 1) \<le> (of_int (2 * j) :: rat)" using N1 by (simp only: of_int_le_iff; simp)
    then have "2 * of_int j * t + 1 \<le> 2 * of_int j" using N by simp
    with s1 have "2 * of_int j * (t + s) < 2 * of_int j * 1" by (simp add: algebra_simps)
    then have "t + s < 1" using jr by (simp only: mult_less_cancel_left_pos; simp)
    then have "x + s + 1 / 2 < of_int (k + 1)" by (simp add: t_def)
    then have "\<lfloor>x + s + 1 / 2\<rfloor> < k + 1" by (simp only: floor_less_iff)
    then show ?thesis by (simp add: round_def[of "x + s"])
  qed
  have low: "k - 1 \<le> round (x - s)"
  proof -
    have "s < 1"
    proof -
      have "(1::rat) \<le> of_int j" using j by simp
      then have "(1::rat) \<le> 2 * of_int j" by linarith
      then have "1 * s \<le> 2 * of_int j * s" using s0 by (rule mult_right_mono)
      with s1 show ?thesis by simp
    qed
    with t0 have "of_int (k - 1) \<le> x - s + 1 / 2" by (simp add: t_def)
    then show ?thesis unfolding round_def[of "x - s"] by (simp only: le_floor_iff)
  qed
  have exact: "k \<le> round (x - s)" if "x + 1 / 2 \<noteq> of_int k"
  proof -
    from that have "t \<noteq> 0" by (simp add: t_def)
    with N jr have "N \<noteq> 0" by auto
    with N0 have "1 \<le> N" by simp
    then have "(1::rat) \<le> of_int N" by simp
    with N s1 have "s \<le> t" using jr
    proof -
      have "2 * of_int j * s < 2 * of_int j * t" using \<open>1 \<le> of_int N\<close> N s1 by simp
      then show ?thesis using jr by (simp only: mult_less_cancel_left_pos; simp)
    qed
    then have "of_int k \<le> x - s + 1 / 2" by (simp add: t_def)
    then show ?thesis unfolding round_def[of "x - s"] by (simp only: le_floor_iff)
  qed
  from g up low exact show ?thesis
    unfolding s_def[symmetric] k_def[symmetric] by (intro exI[of _ g]) auto
qed


lemma growth_sharp:
  assumes "0 < p" "p < 2 ^ 43" "0 \<le> c" "c < 2 ^ 43"
  shows "\<exists>g. growth c p = Finite (of_int g) \<and>
           round (exact_growth c p) - 1 \<le> g \<and> g \<le> round (exact_growth c p) \<and>
           (exact_growth c p + 1 / 2 \<noteq> of_int (round (exact_growth c p)) \<longrightarrow> g = round (exact_growth c p))"
proof -
  have a: "\<bar>c - p\<bar> < 2 ^ 43" using assms by simp
  have b: "p < 2 ^ 53" "c < 2 ^ 53" using assms by simp_all
  from percentage_sharp[OF a assms(1) b(1)] growth_percentage[OF assms(1) b(1) assms(3) b(2)]
  show ?thesis unfolding exact_growth_def by auto
qed

lemma growth_near:
  assumes "0 < p" "p < 2 ^ 53" "0 \<le> c" "c < 2 ^ 53"
  shows "\<exists>g. growth c p = Finite (of_int g) \<and>
           round (exact_growth c p - \<bar>exact_growth c p\<bar> / 2 ^ 51) \<le> g \<and>
           g \<le> round (exact_growth c p + \<bar>exact_growth c p\<bar> / 2 ^ 51)"
proof -
  have a: "\<bar>c - p\<bar> < 2 ^ 53" using assms by simp
  from percentage_near[OF a assms(1,2)] growth_percentage[OF assms]
  show ?thesis unfolding exact_growth_def by auto
qed

lemma growth_120_100: "growth 120 100 = Finite 20"
  using growth_sharp[of 100 120] by (simp add: exact_growth_def)

lemma growth_63_40: "growth 63 40 = Finite 57"
  using growth_percentage[of 40 63] percentage_23_40 by simp

section \<open>Proofs: dashboard aggregation\<close>

text \<open>
  Claim C5, amended. The growth from the previous month's counter to the current one is 0
  when the previous counter is 0 (or below). Otherwise it is the quotient of the
  difference by the previous counter, times 100, each operation rounded to a double, and
  then rounded half up: for counters below \<open>2\<^sup>5\<^sup>3\<close> a finite integer within the rounding
  of the exact value moved by at most its \<open>2\<^sup>5\<^sup>1\<close>-th part, and for counters below \<open>2\<^sup>4\<^sup>3\<close>
  the exact value rounded half up unless that value lies exactly halfway between two
  integers, where it is this or one less. It is never \<open>NaN\<close>. From 0 to 50 it is 0, from
  100 to 120 it is 20, and from 40 to 63 it is 57. Every performance highlight carries
  the growths of an assigned founder's two records, and the larger of its two growths
  exceeds 20.
\<close>

theorem growth_zero_previous_policy:
  "growth current 0 = Finite 0 \<and>
   (previous \<le> 0 \<longrightarrow> growth current previous = Finite 0) \<and>
   (0 < previous \<and> previous < 2 ^ 53 \<and> 0 \<le> current \<and> current < 2 ^ 53 \<longrightarrow>
      (\<exists>g. growth current previous = Finite (of_int g) \<and>
           round (exact_growth current previous - \<bar>exact_growth current previous\<bar> / 2 ^ 51) \<le> g \<and>
           g \<le> round (exact_growth current previous + \<bar>exact_growth current previous\<bar> / 2 ^ 51))) \<and>
   (0 < previous \<and> previous < 2 ^ 43 \<and> 0 \<le> current \<and> current < 2 ^ 43 \<longrightarrow>
      (\<exists>g. growth current previous = Finite (of_int g) \<and>
           round (exact_growth current previous) - 1 \<le> g \<and>
           g \<le> round (exact_growth current previous) \<and>
           (exact_growth current previous + 1 / 2 \<noteq> of_int (round (exact_growth current previous)) \<longrightarrow>
              g = round (exact_growth current previous)))) \<and>
   growth current previous \<noteq> NaN \<and>
   growth 50 0 = Finite 0 \<and>
   growth 120 100 = Finite 20 \<and>
   growth 63 40 = Finite 57 \<and>
   (\<forall>h\<in>set (performanceHighlights d assigned cm pm).
      js_greater (Math_max (impressionsGrowth h) (engagementGrowth h)) 20 \<and>
      (\<exists>fid\<in>set assigned. \<exists>cur prev.
         FounderMetrics_findOne d fid cm = Some cur \<and>
         FounderMetrics_findOne d fid pm = Some prev \<and>
         impressionsGrowth h = growth (totalImpressions cur) (totalImpressions prev) \<and>
         engagementGrowth h = growth (totalCommentOutreach cur) (totalCommentOutreach prev)))"
proof -
  have zero: "previous \<le> 0 \<Longrightarrow> growth current previous = Finite 0" for current previous
    by (simp add: growth_def)
  have hl: "\<forall>h\<in>set (performanceHighlights d assigned cm pm).
      js_greater (Math_max (impressionsGrowth h) (engagementGrowth h)) 20 \<and>
      (\<exists>fid\<in>set assigned. \<exists>cur prev.
         FounderMetrics_findOne d fid cm = Some cur \<and>
         FounderMetrics_findOne d fid pm = Some prev \<and>
         impressionsGrowth h = growth (totalImpressions cur) (totalImpressions prev) \<and>
         engagementGrowth h = growth (totalCommentOutreach cur) (totalCommentOutreach prev))"
  proof
    fix h assume "h \<in> set (performanceHighlights d assigned cm pm)"
    then obtain fid where fid: "fid \<in> set assigned" "h \<in> set (performanceHighlight d cm pm fid)"
      by (auto simp: performanceHighlights_def)
    from highlight_growth[OF fid(2)] fid(1)
    show "js_greater (Math_max (impressionsGrowth h) (engagementGrowth h)) 20 \<and>
      (\<exists>fid\<in>set assigned. \<exists>cur prev.
         FounderMetrics_findOne d fid cm = Some cur \<and>
         FounderMetrics_findOne d fid pm = Some prev \<and>
         impressionsGrowth h = growth (totalImpressions cur) (totalImpressions prev) \<and>
         engagementGrowth h = growth (totalCommentOutreach cur) (totalCommentOutreach prev))"
      by blast
  qed
  show ?thesis
    using zero[of 0 current] zero[of previous current] zero[of 0 50]
      growth_near[of previous current] growth_sharp[of previous current]
      growth_not_NaN[of current previous] growth_120_100 growth_63_40 hl
    by (intro conjI impI) simp_all
qed

theorem growth_zero_previous_policy_witness:
  "growth 50 0 = Finite 0 \<and> growth 130 100 = Finite 30 \<and> growth 10 10 = Finite 0 \<and>
   map (\<lambda>h. (impressionsGrowth h, engagementGrowth h))
     (performanceHighlights milestone_db [''p1'', ''p2''] ''2025-06'' ''2025-05'') =
     [(Finite 30, Finite 0)]"
proof -
  have a: "growth 130 100 = Finite 30"
    using growth_zero_previous_policy[where current = 130 and previous = 100 and d = sample_db
        and assigned = "[]" and cm = "[]" and pm = "[]"]
    by (simp add: exact_growth_def)
  have b: "growth 10 10 = Finite 0"
    using growth_zero_previous_policy[where current = 10 and previous = 10 and d = sample_db
        and assigned = "[]" and cm = "[]" and pm = "[]"]
    by (simp add: exact_growth_def)
  have hl: "map (\<lambda>h. (impressionsGrowth h, engagementGrowth h))
     (performanceHighlights milestone_db [''p1'', ''p2''] ''2025-06'' ''2025-05'') =
     [(Finite 30, Finite 0)]"
    using a b
    by (simp add: performanceHighlights_def performanceHighlight_def milestone_db_def sample_db_def
          FounderMetrics_findOne_def sort_desc_def)
  from growth_zero_previous_policy[where current = 50 and previous = 0 and d = sample_db
        and assigned = "[]" and cm = "[]" and pm = "[]"] a b hl
  show ?thesis by simp
qed

text \<open>
  Claim C5 as stated fails: from 40 to 63 the formula gives 57.5, which rounds to 58, and
  the computed growth is 57; from 200 to 401 the formula gives 100.5, which rounds to
  101, and the computed growth is 100.
\<close>

theorem growth_63_40_counterexample:
  "growth 63 40 = Finite 57 \<and>
   (of_int (63 - 40) / of_int 40 * 100 :: rat) = 115 / 2 \<and>
   round (of_int (63 - 40) / of_int 40 * 100 :: rat) = 58 \<and>
   growth 401 200 = Finite 100 \<and>
   (of_int (401 - 200) / of_int 200 * 100 :: rat) = 201 / 2 \<and>
   round (of_int (401 - 200) / of_int 200 * 100 :: rat) = 101"
proof -
  have "growth 63 40 = Finite 57"
    using growth_percentage[of 40 63] percentage_23_40 by simp
  moreover have "growth 401 200 = Finite 100"
    using growth_percentage[of 200 401] percentage_201_200 by simp
  moreover have "round (115 / 2 :: rat) = 58" "round (201 / 2 :: rat) = 101"
    by (simp_all add: round_def floor_rat_numeral_div)
  ultimately show ?thesis by simp
qed

lemma approaching_milestones:
  "approaching posts milestones =
     (if 90 \<le> posts \<and> posts < 100 then [(100, 100 - posts)]
      else if 490 \<le> posts \<and> posts < 500 then [(500, 500 - posts)]
      else if 990 \<le> posts \<and> posts < 1000 then [(1000, 1000 - posts)]
      else [])"
  by (simp add: milestones_def)

lemma upcoming_per_founder:
  "length (filter (\<lambda>u. um_id u = fid) (upcomingMilestones d)) \<le>
     length (filter (\<lambda>f. founder_id f = fid) (founders d))"
proof -
  have "length (filter (\<lambda>u. um_id u = fid)
     (concat (map (\<lambda>founder.
        map (\<lambda>(m, away).
               \<lparr>um_id = founder_id founder,
                um_founderName = (case User_findById d (founder_userId founder) of
                                    None \<Rightarrow> ''Unknown'' | Some user \<Rightarrow> name user),
                um_companyName = (if companyName founder = [] then ''Unknown''
                                  else companyName founder),
                currentPosts = founderTotalPosts d (founder_id founder),
                milestone = m, postsAway = away\<rparr>)
          (approaching (founderTotalPosts d (founder_id founder)) milestones))
      fs))) \<le> length (filter (\<lambda>f. founder_id f = fid) fs)" for fs :: "Founder list"
    by (induction fs) (auto simp: approaching_milestones)
  then show ?thesis unfolding upcomingMilestones_def .
qed

lemma upcoming_entries:
  assumes "u \<in> set (upcomingMilestones d)"
  shows "\<exists>f\<in>set (founders d). um_id u = founder_id f \<and>
           currentPosts u = founderTotalPosts d (founder_id f) \<and>
           (milestone u, postsAway u) \<in> set (approaching (founderTotalPosts d (founder_id f)) milestones)"
  using assms by (auto simp: upcomingMilestones_def)

text \<open>The entries of one founder id are those of the founders with that id, in order.\<close>

lemma upcoming_of_founder:
  "map (\<lambda>u. (currentPosts u, milestone u, postsAway u))
       (filter (\<lambda>u. um_id u = fid) (upcomingMilestones d)) =
   concat (map (\<lambda>f. map (\<lambda>(m, away). (founderTotalPosts d (founder_id f), m, away))
                        (approaching (founderTotalPosts d (founder_id f)) milestones))
               (filter (\<lambda>f. founder_id f = fid) (founders d)))"
proof -
  have "map (\<lambda>u. (currentPosts u, milestone u, postsAway u))
       (filter (\<lambda>u. um_id u = fid)
     (concat (map (\<lambda>founder.
        map (\<lambda>(m, away).
               \<lparr>um_id = founder_id founder,
                um_founderName = (case User_findById d (founder_userId founder) of
                                    None \<Rightarrow> ''Unknown'' | Some user \<Rightarrow> name user),
                um_companyName = (if companyName founder = [] then ''Unknown''
                                  else companyName founder),
                currentPosts = founderTotalPosts d (founder_id founder),
                milestone = m, postsAway = away\<rparr>)
          (approaching (founderTotalPosts d (founder_id founder)) milestones))
      fs))) =
   concat (map (\<lambda>f. map (\<lambda>(m, away). (founderTotalPosts d (founder_id f), m, away))
                        (approaching (founderTotalPosts d (founder_id f)) milestones))
               (filter (\<lambda>f. founder_id f = fid) fs))" for fs :: "Founder list"
    by (induction fs) (simp_all add: approaching_milestones)
  then show ?thesis unfolding upcomingMilestones_def .
qed

lemma upcoming_complete:
  assumes "f \<in> set (founders d)"
    and "(m, away) \<in> set (approaching (founderTotalPosts d (founder_id f)) milestones)"
  shows "\<exists>u\<in>set (upcomingMilestones d). um_id u = founder_id f \<and>
           currentPosts u = founderTotalPosts d (founder_id f) \<and> milestone u = m \<and> postsAway u = away"
proof -
  define u where "u = \<lparr>um_id = founder_id f,
                um_founderName = (case User_findById d (founder_userId f) of
                                    None \<Rightarrow> ''Unknown'' | Some user \<Rightarrow> name user),
                um_companyName = (if companyName f = [] then ''Unknown'' else companyName f),
                currentPosts = founderTotalPosts d (founder_id f),
                milestone = m, postsAway = away\<rparr>"
  have "u \<in> set (upcomingMilestones d)"
    using assms
    by (auto simp: upcomingMilestones_def u_def intro!: bexI[of _ f] image_eqI[of _ _ "(m, away)"])
  moreover have "um_id u = founder_id f \<and>
           currentPosts u = founderTotalPosts d (founder_id f) \<and> milestone u = m \<and> postsAway u = away"
    by (simp add: u_def)
  ultimately show ?thesis by blast
qed

text \<open>
  Claim C6, amended. For the milestones 100, 500 and 1000 a post count is reported at
  most once, for the milestone \<open>m\<close> with \<open>m - 10 \<le> posts < m\<close>, which is then the least
  milestone above the count; 95 is reported with milestone 100 and 5 posts away, 90 is
  reported with milestone 100 and 10 posts away, 89 and 100 are not reported. Every
  founder whose lifetime posts lie in the window of a milestone appears among the
  upcoming milestones with that milestone, and every entry is of this kind. With founder
  ids that are unique, the entries of a founder are exactly the milestones its lifetime
  posts approach: one entry when the posts lie in a window, none otherwise.
\<close>

theorem milestone_window:
  "length (approaching posts milestones) \<le> 1 \<and>
   (\<forall>m away. (m, away) \<in> set (approaching posts milestones) \<longleftrightarrow>
      m \<in> set milestones \<and> m - 10 \<le> posts \<and> posts < m \<and> away = m - posts) \<and>
   (\<forall>m away. (m, away) \<in> set (approaching posts milestones) \<longrightarrow>
      (\<forall>m'\<in>set milestones. posts < m' \<longrightarrow> m \<le> m')) \<and>
   approaching 95 milestones = [(100, 5)] \<and>
   approaching 90 milestones = [(100, 10)] \<and>
   approaching 89 milestones = [] \<and>
   approaching 100 milestones = [] \<and>
   (distinct (map founder_id (founders d)) \<longrightarrow>
      length (filter (\<lambda>u. um_id u = fid) (upcomingMilestones d)) \<le> 1) \<and>
   (\<forall>u\<in>set (upcomingMilestones d).
      \<exists>f\<in>set (founders d). um_id u = founder_id f \<and>
        currentPosts u = founderTotalPosts d (founder_id f) \<and>
        milestone u \<in> set milestones \<and>
        milestone u - 10 \<le> currentPosts u \<and> currentPosts u < milestone u \<and>
        postsAway u = milestone u - currentPosts u) \<and>
   (\<forall>f\<in>set (founders d). \<forall>m\<in>set milestones.
      m - 10 \<le> founderTotalPosts d (founder_id f) \<and> founderTotalPosts d (founder_id f) < m \<longrightarrow>
      (\<exists>u\<in>set (upcomingMilestones d). um_id u = founder_id f \<and>
         currentPosts u = founderTotalPosts d (founder_id f) \<and>
         milestone u = m \<and> postsAway u = m - founderTotalPosts d (founder_id f))) \<and>
   (distinct (map founder_id (founders d)) \<longrightarrow>
      (\<forall>f\<in>set (founders d).
         map (\<lambda>u. (currentPosts u, milestone u, postsAway u))
             (filter (\<lambda>u. um_id u = founder_id f) (upcomingMilestones d)) =
         map (\<lambda>(m, away). (founderTotalPosts d (founder_id f), m, away))
             (approaching (founderTotalPosts d (founder_id f)) milestones) \<and>
         length (filter (\<lambda>u. um_id u = founder_id f) (upcomingMilestones d)) =
           (if \<exists>m\<in>set milestones. m - 10 \<le> founderTotalPosts d (founder_id f) \<and>
                                   founderTotalPosts d (founder_id f) < m
            then 1 else 0))) \<and>
   (fid \<notin> founder_id ` set (founders d) \<longrightarrow>
      filter (\<lambda>u. um_id u = fid) (upcomingMilestones d) = [])"
proof -
  have mem: "(m, away) \<in> set (approaching posts milestones) \<longleftrightarrow>
      m \<in> set milestones \<and> m - 10 \<le> posts \<and> posts < m \<and> away = m - posts" for m away posts
    unfolding approaching_milestones by (auto simp: milestones_def)
  have least: "(m, away) \<in> set (approaching posts milestones) \<Longrightarrow>
      (\<forall>m'\<in>set milestones. posts < m' \<longrightarrow> m \<le> m')" for m away
    unfolding approaching_milestones by (auto simp: milestones_def split: if_splits)
  have once: "distinct (map founder_id (founders d)) \<Longrightarrow>
      length (filter (\<lambda>u. um_id u = fid) (upcomingMilestones d)) \<le> 1"
  proof -
    assume dist: "distinct (map founder_id (founders d))"
    have "length (filter (\<lambda>f. founder_id f = fid) (founders d)) \<le> 1"
    proof (cases "\<exists>f\<in>set (founders d). founder_id f = fid")
      case True
      then obtain f where "f \<in> set (founders d)" "founder_id f = fid" by blast
      with filter_unique_key[OF dist this(1)] show ?thesis by simp
    next
      case False
      then have "filter (\<lambda>f. founder_id f = fid) (founders d) = []"
        by (simp add: filter_empty_conv)
      then show ?thesis by simp
    qed
    with upcoming_per_founder[of fid d] show ?thesis by simp
  qed
  have entries: "\<forall>u\<in>set (upcomingMilestones d).
      \<exists>f\<in>set (founders d). um_id u = founder_id f \<and>
        currentPosts u = founderTotalPosts d (founder_id f) \<and>
        milestone u \<in> set milestones \<and>
        milestone u - 10 \<le> currentPosts u \<and> currentPosts u < milestone u \<and>
        postsAway u = milestone u - currentPosts u"
  proof
    fix u assume "u \<in> set (upcomingMilestones d)"
    from upcoming_entries[OF this] obtain f where
      f: "f \<in> set (founders d)" "um_id u = founder_id f"
         "currentPosts u = founderTotalPosts d (founder_id f)"
         "(milestone u, postsAway u) \<in> set (approaching (founderTotalPosts d (founder_id f)) milestones)"
      by blast
    from f(4) have "milestone u \<in> set milestones \<and> milestone u - 10 \<le> currentPosts u \<and>
        currentPosts u < milestone u \<and> postsAway u = milestone u - currentPosts u"
      unfolding mem f(3) .
    with f show "\<exists>f\<in>set (founders d). um_id u = founder_id f \<and>
        currentPosts u = founderTotalPosts d (founder_id f) \<and>
        milestone u \<in> set milestones \<and>
        milestone u - 10 \<le> currentPosts u \<and> currentPosts u < milestone u \<and>
        postsAway u = milestone u - currentPosts u" by blast
  qed
  have complete: "\<forall>f\<in>set (founders d). \<forall>m\<in>set milestones.
      m - 10 \<le> founderTotalPosts d (founder_id f) \<and> founderTotalPosts d (founder_id f) < m \<longrightarrow>
      (\<exists>u\<in>set (upcomingMilestones d). um_id u = founder_id f \<and>
         currentPosts u = founderTotalPosts d (founder_id f) \<and>
         milestone u = m \<and> postsAway u = m - founderTotalPosts d (founder_id f))"
  proof (intro ballI impI)
    fix f m
    assume f: "f \<in> set (founders d)" and m: "m \<in> set milestones"
      and w: "m - 10 \<le> founderTotalPosts d (founder_id f) \<and> founderTotalPosts d (founder_id f) < m"
    from m w have "(m, m - founderTotalPosts d (founder_id f)) \<in>
        set (approaching (founderTotalPosts d (founder_id f)) milestones)"
      unfolding mem by simp
    from upcoming_complete[OF f this]
    show "\<exists>u\<in>set (upcomingMilestones d). um_id u = founder_id f \<and>
         currentPosts u = founderTotalPosts d (founder_id f) \<and>
         milestone u = m \<and> postsAway u = m - founderTotalPosts d (founder_id f)" .
  qed
  have exact: "distinct (map founder_id (founders d)) \<longrightarrow>
      (\<forall>f\<in>set (founders d).
         map (\<lambda>u. (currentPosts u, milestone u, postsAway u))
             (filter (\<lambda>u. um_id u = founder_id f) (upcomingMilestones d)) =
         map (\<lambda>(m, away). (founderTotalPosts d (founder_id f), m, away))
             (approaching (founderTotalPosts d (founder_id f)) milestones) \<and>
         length (filter (\<lambda>u. um_id u = founder_id f) (upcomingMilestones d)) =
           (if \<exists>m\<in>set milestones. m - 10 \<le> founderTotalPosts d (founder_id f) \<and>
                                   founderTotalPosts d (founder_id f) < m
            then 1 else 0))"
  proof (intro impI ballI)
    fix f
    assume dist: "distinct (map founder_id (founders d))" and f: "f \<in> set (founders d)"
    have rows: "map (\<lambda>u. (currentPosts u, milestone u, postsAway u))
             (filter (\<lambda>u. um_id u = founder_id f) (upcomingMilestones d)) =
         map (\<lambda>(m, away). (founderTotalPosts d (founder_id f), m, away))
             (approaching (founderTotalPosts d (founder_id f)) milestones)"
      unfolding upcoming_of_founder filter_unique_key[OF dist f] by simp
    have "length (filter (\<lambda>u. um_id u = founder_id f) (upcomingMilestones d)) =
        length (map (\<lambda>u. (currentPosts u, milestone u, postsAway u))
             (filter (\<lambda>u. um_id u = founder_id f) (upcomingMilestones d)))"
      by simp
    also have "\<dots> = length (approaching (founderTotalPosts d (founder_id f)) milestones)"
      unfolding rows by simp
    also have "\<dots> = (if \<exists>m\<in>set milestones. m - 10 \<le> founderTotalPosts d (founder_id f) \<and>
                                   founderTotalPosts d (founder_id f) < m
            then 1 else 0)"
      unfolding approaching_milestones by (auto simp: milestones_def)
    finally show "map (\<lambda>u. (currentPosts u, milestone u, postsAway u))
             (filter (\<lambda>u. um_id u = founder_id f) (upcomingMilestones d)) =
         map (\<lambda>(m, away). (founderTotalPosts d (founder_id f), m, away))
             (approaching (founderTotalPosts d (founder_id f)) milestones) \<and>
         length (filter (\<lambda>u. um_id u = founder_id f) (upcomingMilestones d)) =
           (if \<exists>m\<in>set milestones. m - 10 \<le> founderTotalPosts d (founder_id f) \<and>
                                   founderTotalPosts d (founder_id f) < m
            then 1 else 0)"
      using rows by simp
  qed
  have absent: "fid \<notin> founder_id ` set (founders d) \<longrightarrow>
      filter (\<lambda>u. um_id u = fid) (upcomingMilestones d) = []"
  proof
    assume "fid \<notin> founder_id ` set (founders d)"
    then have "filter (\<lambda>f. founder_id f = fid) (founders d) = []"
      by (auto simp: filter_empty_conv)
    with upcoming_per_founder[of fid d] show "filter (\<lambda>u. um_id u = fid) (upcomingMilestones d) = []"
      by simp
  qed
  have len: "length (approaching posts milestones) \<le> 1"
    by (simp add: approaching_milestones)
  have ex: "approaching 95 milestones = [(100, 5)]" "approaching 90 milestones = [(100, 10)]"
    "approaching 89 milestones = []" "approaching 100 milestones = []"
    by (simp_all add: approaching_milestones)
  have first: "length (approaching posts milestones) \<le> 1 \<and>
   (\<forall>m away. (m, away) \<in> set (approaching posts milestones) \<longleftrightarrow>
      m \<in> set milestones \<and> m - 10 \<le> posts \<and> posts < m \<and> away = m - posts) \<and>
   (\<forall>m away. (m, away) \<in> set (approaching posts milestones) \<longrightarrow>
      (\<forall>m'\<in>set milestones. posts < m' \<longrightarrow> m \<le> m'))"
    using len mem least by blast
  from first ex once entries complete exact absent show ?thesis
    by (intro conjI) (assumption | (rule impI, assumption) | blast)+
qed

theorem milestone_window_witness:
  "distinct (map founder_id (founders milestone_db)) \<and>
   map (\<lambda>u. (um_id u, currentPosts u, milestone u, postsAway u)) (upcomingMilestones milestone_db) =
     [(''p1'', 90, 100, 10)] \<and>
   length (filter (\<lambda>u. um_id u = ''p1'') (upcomingMilestones milestone_db)) = 1 \<and>
   length (filter (\<lambda>u. um_id u = ''p2'') (upcomingMilestones milestone_db)) = 0 \<and>
   founderTotalPosts milestone_db ''p1'' = 90 \<and> founderTotalPosts milestone_db ''p2'' = 0"
proof -
  have d: "distinct (map founder_id (founders milestone_db))"
    by (simp add: milestone_db_def sample_db_def)
  have r: "map (\<lambda>u. (um_id u, currentPosts u, milestone u, postsAway u)) (upcomingMilestones milestone_db) =
     [(''p1'', 90, 100, 10)]"
    by (simp add: upcomingMilestones_def founderTotalPosts_def milestone_db_def sample_db_def milestones_def)
  have t: "founderTotalPosts milestone_db ''p1'' = 90" "founderTotalPosts milestone_db ''p2'' = 0"
    by (simp_all add: founderTotalPosts_def milestone_db_def sample_db_def)
  have f: "founders milestone_db =
      [\<lparr>founder_id = ''p1'', founder_userId = ''f1'', companyName = ''Acme''\<rparr>,
       \<lparr>founder_id = ''p2'', founder_userId = ''f2'', companyName = ''Bolt''\<rparr>]"
    by (simp add: milestone_db_def sample_db_def)
  from milestone_window[where posts = 90 and d = milestone_db and fid = "''p1''"] d
  have "\<forall>f\<in>set (founders milestone_db).
         length (filter (\<lambda>u. um_id u = founder_id f) (upcomingMilestones milestone_db)) =
           (if \<exists>m\<in>set milestones. m - 10 \<le> founderTotalPosts milestone_db (founder_id f) \<and>
                                   founderTotalPosts milestone_db (founder_id f) < m
            then 1 else 0)"
    by blast
  then have "length (filter (\<lambda>u. um_id u = ''p1'') (upcomingMilestones milestone_db)) = 1"
    "length (filter (\<lambda>u. um_id u = ''p2'') (upcomingMilestones milestone_db)) = 0"
    unfolding f by (simp_all add: t milestones_def)
  with d r t show ?thesis by simp
qed

text \<open>
  Claim C6 as stated fails: a founder with 90 lifetime posts is reported, 10 posts away
  from milestone 100.
\<close>

theorem milestone_posts_90_counterexample:
  "founderTotalPosts milestone_db ''p1'' = 90 \<and>
   map (\<lambda>u. (um_id u, currentPosts u, milestone u, postsAway u)) (upcomingMilestones milestone_db) =
     [(''p1'', 90, 100, 10)]"
  by (simp add: upcomingMilestones_def founderTotalPosts_def milestone_db_def sample_db_def milestones_def)












end
